theory Spec2Isabelle
  imports Complex_Main
begin

section \<open>Model of pandas/core/format.py\<close>

text \<open>
  A string is a Python 2 \<open>str\<close>: a list of bytes, so \<open>length\<close> is \<open>len\<close>, the number of
  bytes, and slicing, \<open>ljust\<close> and \<open>rjust\<close> work on bytes. The number of characters that
  a string shows is another matter, measured by \<open>_strlen\<close> where the source calls it.
  Python's unbounded integers are \<open>int\<close>; list lengths and offsets that the source keeps
  non-negative are \<open>nat\<close>.
\<close>

subsection \<open>The trim pass: \<open>_trim_zeros\<close>\<close>

text \<open>\<open>x.endswith(c)\<close> for a one-character suffix \<open>c\<close>.\<close>

definition endswith_char :: "string \<Rightarrow> char \<Rightarrow> bool" where
  "endswith_char x c = (x \<noteq> [] \<and> last x = c)"

text \<open>
  The inner function \<open>_cond\<close>: there is a string different from \<open>na_rep\<close>, all such strings
  end in \<open>0\<close>, and none of them holds \<open>e\<close> or \<open>E\<close>.
\<close>

definition trim_cond :: "string \<Rightarrow> string list \<Rightarrow> bool" where
  "trim_cond na_rep values =
     (let non_na = filter (\<lambda>x. x \<noteq> na_rep) values
      in length non_na > 0 \<and> list_all (\<lambda>x. endswith_char x (CHR ''0'')) non_na \<and>
         \<not> list_ex (\<lambda>x. CHR ''e'' \<in> set x \<or> CHR ''E'' \<in> set x) non_na)"

text \<open>The loop body: \<open>[x[:-1] if x != na_rep else x for x in trimmed]\<close>.\<close>

definition trim_step :: "string \<Rightarrow> string list \<Rightarrow> string list" where
  "trim_step na_rep trimmed = map (\<lambda>x. if x \<noteq> na_rep then butlast x else x) trimmed"

text \<open>
  The \<open>while _cond(trimmed)\<close> loop. It is total: the summed length of the strings drops
  with every pass through the body.
\<close>

function trim_loop :: "string \<Rightarrow> string list \<Rightarrow> string list" where
  "trim_loop na_rep trimmed =
     (if trim_cond na_rep trimmed then trim_loop na_rep (trim_step na_rep trimmed) else trimmed)"
  by pat_completeness auto
termination
proof (relation "measure (\<lambda>(na_rep, xs). sum_list (map length xs))")
  show "wf (measure (\<lambda>(na_rep, xs). sum_list (map length xs)))" by simp
next
  fix na_rep :: string and trimmed :: "string list"
  assume c: "trim_cond na_rep trimmed"
  have dec: "sum_list (map length (trim_step na_rep xs)) < sum_list (map length xs)"
    if "\<exists>x \<in> set xs. x \<noteq> na_rep" "\<forall>x \<in> set xs. x \<noteq> na_rep \<longrightarrow> x \<noteq> []" for xs
    using that
  proof (induction xs)
    case Nil
    then show ?case by simp
  next
    case (Cons a xs)
    have le: "sum_list (map length (trim_step na_rep xs)) \<le> sum_list (map length xs)"
      by (induction xs) (auto simp: trim_step_def)
    show ?case
    proof (cases "a \<noteq> na_rep")
      case True
      with Cons.prems have "a \<noteq> []" by simp
      then have "length (butlast a) < length a" by simp
      with True le show ?thesis by (simp add: trim_step_def)
    next
      case False
      with Cons.prems have "\<exists>x \<in> set xs. x \<noteq> na_rep" by simp
      moreover from Cons.prems have "\<forall>x \<in> set xs. x \<noteq> na_rep \<longrightarrow> x \<noteq> []" by simp
      ultimately have "sum_list (map length (trim_step na_rep xs)) < sum_list (map length xs)"
        by (rule Cons.IH)
      with False show ?thesis by (simp add: trim_step_def)
    qed
  qed
  from c have "\<exists>x \<in> set trimmed. x \<noteq> na_rep"
    and "\<forall>x \<in> set trimmed. x \<noteq> na_rep \<longrightarrow> x \<noteq> []"
    by (auto simp: trim_cond_def Let_def list_all_iff endswith_char_def filter_empty_conv)
  then have "sum_list (map length (trim_step na_rep trimmed)) < sum_list (map length trimmed)"
    by (rule dec)
  then show "((na_rep, trim_step na_rep trimmed), (na_rep, trimmed))
      \<in> measure (\<lambda>(na_rep, xs). sum_list (map length xs))"
    by simp
qed

text \<open>
  The number of passes through the loop body; its recursion is the loop's own, so it is
  total wherever the loop is.
\<close>

function (domintros) trim_iters :: "string \<Rightarrow> string list \<Rightarrow> nat" where
  "trim_iters na_rep trimmed =
     (if trim_cond na_rep trimmed then Suc (trim_iters na_rep (trim_step na_rep trimmed)) else 0)"
  by pat_completeness auto
termination
proof (rule allI)
  fix p :: "string \<times> string list"
  show "trim_iters_dom p"
  proof (cases p)
    case (Pair na_rep xs)
    have "trim_iters_dom (na_rep, xs)"
      by (induction na_rep xs rule: trim_loop.induct) (auto intro: trim_iters.domintros)
    with Pair show ?thesis by simp
  qed
qed

declare trim_loop.simps [simp del] trim_iters.simps [simp del]

text \<open>\<open>_trim_zeros\<close>: the loop, then one trailing decimal point off.\<close>

definition trim_zeros :: "string list \<Rightarrow> string \<Rightarrow> string list" where
  "trim_zeros str_floats na_rep =
     map (\<lambda>x. if endswith_char x (CHR ''.'') \<and> x \<noteq> na_rep then butlast x else x)
       (trim_loop na_rep str_floats)"

text \<open>The summed length of the strings that differ from \<open>na_rep\<close>.\<close>

definition non_na_len :: "string \<Rightarrow> string list \<Rightarrow> nat" where
  "non_na_len na_rep xs = sum_list (map length (filter (\<lambda>x. x \<noteq> na_rep) xs))"

subsection \<open>Fixed-width layout: \<open>_make_fixed_width\<close>\<close>

text \<open>
  \<open>str.ljust\<close> and \<open>str.rjust\<close> pad with spaces up to the width, counted in bytes, and
  leave a string that is already that long (or a width below zero) alone.
\<close>

definition ljust :: "string \<Rightarrow> int \<Rightarrow> string" where
  "ljust x width = x @ replicate (nat (width - int (length x))) (CHR '' '')"

definition rjust :: "string \<Rightarrow> int \<Rightarrow> string" where
  "rjust x width = replicate (nat (width - int (length x))) (CHR '' '') @ x"

text \<open>The slice \<open>x[:n]\<close>: a negative \<open>n\<close> counts from the end.\<close>

definition slice_to :: "'a list \<Rightarrow> int \<Rightarrow> 'a list" where
  "slice_to x n = (if 0 \<le> n then take (nat n) x else take (length x - nat (- n)) x)"

text \<open>
  \<open>strlen\<close> is the function that \<open>_strlen_func()\<close> returns: \<open>len\<close> on Python 3, and on
  Python 2 the number of characters of the string decoded with the option
  \<open>display.encoding\<close> (\<open>len\<close> when it does not decode). The codecs are not part of the
  sources, so it is a parameter. The function measures with \<open>strlen\<close> and pads and cuts
  by bytes. \<open>conf_max\<close> is the option \<open>display.max_colwidth\<close> (\<open>None\<close> when unset);
  \<open>justify\<close> is the string the callers pass, and only \<open>'left'\<close> selects \<open>ljust\<close>. The
  maximum is taken only of a list that is not empty.
\<close>

definition make_fixed_width ::
  "(string \<Rightarrow> nat) \<Rightarrow> int option \<Rightarrow> string list \<Rightarrow> string \<Rightarrow> int option \<Rightarrow> string list" where
  "make_fixed_width strlen conf_max strings justify minimum =
     (if length strings = 0 then strings
      else
        let max_len0 = Max (set (map (\<lambda>x. int (strlen x)) strings));
            max_len1 = (case minimum of None \<Rightarrow> max_len0 | Some m \<Rightarrow> max m max_len0);
            max_len = (case conf_max of
                         None \<Rightarrow> max_len1
                       | Some c \<Rightarrow> if max_len1 > c then c else max_len1);
            justfunc = (if justify = ''left'' then ljust else rjust);
            just = (\<lambda>x.
              let eff_len = max_len;
                  x' = (case conf_max of
                          None \<Rightarrow> x
                        | Some c \<Rightarrow>
                            if c > 3 \<and> int (strlen x) > max_len
                            then slice_to x (eff_len - 3) @ ''...'' else x)
              in justfunc x' eff_len)
        in map just strings)"

text \<open>The width the layout settles on, as the function computes it.\<close>

definition fixed_width :: "(string \<Rightarrow> nat) \<Rightarrow> int option \<Rightarrow> string list \<Rightarrow> int option \<Rightarrow> int" where
  "fixed_width strlen conf_max strings minimum =
     (let max_len0 = Max (set (map (\<lambda>x. int (strlen x)) strings));
          max_len1 = (case minimum of None \<Rightarrow> max_len0 | Some m \<Rightarrow> max m max_len0)
      in case conf_max of None \<Rightarrow> max_len1 | Some c \<Rightarrow> if max_len1 > c then c else max_len1)"

text \<open>
  What \<open>_strlen\<close> returns on Python 2 for a well-formed UTF-8 string when
  \<open>display.encoding\<close> is UTF-8: the number of its characters, which is the number of its
  bytes that are not continuation bytes (\<open>0x80\<close> to \<open>0xBF\<close>). On ASCII text it is \<open>len\<close>.
\<close>

definition utf8_strlen :: "string \<Rightarrow> nat" where
  "utf8_strlen x = length (filter (\<lambda>c. \<not> (128 \<le> (of_char c :: nat) \<and> (of_char c :: nat) < 192)) x)"

subsection \<open>The label sparsifier: \<open>_get_level_lengths\<close>\<close>

text \<open>
  The closure \<open>grouper\<close> keeps a counter in \<open>record['count']\<close>: a label other than the
  sentinel bumps it, and the counter is the key returned. Here the counter is passed in
  and handed back with the key.
\<close>

definition grouper :: "'a \<Rightarrow> nat \<Rightarrow> 'a \<Rightarrow> nat \<times> nat" where
  "grouper sentinal count x =
     (let count' = (if x \<noteq> sentinal then count + 1 else count) in (count', count'))"

text \<open>
  \<open>itertools.groupby(lev, f)\<close> calls \<open>f\<close> once on every element, left to right, and puts
  neighbours with equal keys into one group. \<open>group_keys\<close> is the first half, threading
  the counter; \<open>groupby\<close> is the second, on the keyed elements.
\<close>

fun group_keys :: "'a \<Rightarrow> nat \<Rightarrow> 'a list \<Rightarrow> (nat \<times> 'a) list" where
  "group_keys sentinal count [] = []"
| "group_keys sentinal count (x # xs) =
     (case grouper sentinal count x of
        (key, count') \<Rightarrow> (key, x) # group_keys sentinal count' xs)"

function groupby :: "('k \<times> 'a) list \<Rightarrow> ('k \<times> 'a list) list" where
  "groupby [] = []"
| "groupby ((key, x) # rest) =
     (key, x # map snd (takeWhile (\<lambda>p. fst p = key) rest)) #
       groupby (dropWhile (\<lambda>p. fst p = key) rest)"
  by pat_completeness auto
termination
  by (relation "measure length") (auto simp: length_dropWhile_le less_Suc_eq_le)

text \<open>
  The body of \<open>for key, gpr in groupby(lev, f)\<close>: \<open>recs[i] = len(values); i += len(values)\<close>,
  with the dictionary \<open>recs\<close> as a map.
\<close>

fun level_loop :: "nat \<Rightarrow> (nat \<rightharpoonup> nat) \<Rightarrow> ('k \<times> 'a list) list \<Rightarrow> (nat \<rightharpoonup> nat)" where
  "level_loop i recs [] = recs"
| "level_loop i recs ((key, values) # groups) =
     level_loop (i + length values) (recs(i \<mapsto> length values)) groups"

text \<open>One pass of \<open>for lev in levels\<close>, and the function.\<close>

definition level_lengths :: "'a \<Rightarrow> 'a list \<Rightarrow> (nat \<rightharpoonup> nat)" where
  "level_lengths sentinal lev = level_loop 0 Map.empty (groupby (group_keys sentinal 0 lev))"

definition get_level_lengths :: "'a list list \<Rightarrow> 'a \<Rightarrow> (nat \<rightharpoonup> nat) list" where
  "get_level_lengths levels sentinal = map (level_lengths sentinal) levels"

text \<open>
  For the proofs: the (start, length) pairs in the order the loop stores them, and what it
  means for such pairs to tile the rows from \<open>i\<close> up to \<open>n\<close>.
\<close>

fun runs_from :: "nat \<Rightarrow> ('k \<times> 'a list) list \<Rightarrow> (nat \<times> nat) list" where
  "runs_from i [] = []"
| "runs_from i ((key, values) # groups) =
     (i, length values) # runs_from (i + length values) groups"

fun tiles :: "nat \<Rightarrow> (nat \<times> nat) list \<Rightarrow> nat \<Rightarrow> bool" where
  "tiles i [] n = (i = n)"
| "tiles i ((s, len) # rs) n = (s = i \<and> 0 < len \<and> tiles (i + len) rs n)"

text \<open>The (start, length) pairs of one level, in the order the loop stores them.\<close>

definition level_runs :: "'a \<Rightarrow> 'a list \<Rightarrow> (nat \<times> nat) list" where
  "level_runs sentinal lev = runs_from 0 (groupby (group_keys sentinal 0 lev))"

subsection \<open>Console wrapping: \<open>_binify\<close> and \<open>_join_multiline\<close>\<close>

text \<open>The exceptions that the modelled functions raise.\<close>

datatype error =
    AliasCountError nat nat
      \<comment> \<open>\<open>ValueError('Writing %d cols but got %d aliases' % (len(cols), len(header)))\<close>\<close>
  | ZeroSizeError  \<comment> \<open>\<open>ValueError\<close>: the maximum of an empty array\<close>
  | NameError string
  | IndexError
  | ZeroDivisionError
  | FormatError  \<comment> \<open>\<open>ValueError\<close>: unsupported format character, from the \<open>%\<close> operator\<close>

text \<open>
  The loop \<open>for i, w in enumerate(cols)\<close> of \<open>_binify\<close>, with \<open>adjoin_width = 1\<close>; the
  state is \<open>bins\<close> and \<open>curr_width\<close>.
\<close>

fun binify_loop :: "int \<Rightarrow> int \<Rightarrow> int \<Rightarrow> int list \<Rightarrow> int list \<Rightarrow> int \<Rightarrow> int list" where
  "binify_loop line_width i_last_column i [] bins curr_width = bins"
| "binify_loop line_width i_last_column i (w # cols) bins curr_width =
     (let w_adjoined = w + 1;
          curr_width' = curr_width + w_adjoined;
          wrap = (if i_last_column = i then curr_width' + 1 > line_width \<and> i > 0
                  else curr_width' + 2 > line_width \<and> i > 0)
      in if wrap then binify_loop line_width i_last_column (i + 1) cols (bins @ [i]) w_adjoined
         else binify_loop line_width i_last_column (i + 1) cols bins curr_width')"

definition binify :: "int list \<Rightarrow> int \<Rightarrow> int list" where
  "binify cols line_width =
     binify_loop line_width (int (length cols) - 1) 0 cols [] 0 @ [int (length cols)]"

text \<open>The slice \<open>xs[st:ed]\<close> for bounds that are not negative, as the bins are.\<close>

definition slice :: "'a list \<Rightarrow> int \<Rightarrow> int \<Rightarrow> 'a list" where
  "slice xs st ed = drop (nat st) (take (nat ed) xs)"

text \<open>
  The loop \<open>for i, ed in enumerate(col_bins)\<close> of \<open>_join_multiline\<close>: every block starts
  with the row-label column \<open>idx\<close>; when there is more than one bin, a block other than
  the last ends with the continuation column (a space and a backslash, then two spaces
  on each further line) and the last with a column of single spaces. \<open>frame_len\<close> is
  \<open>len(self.frame)\<close>. The result lists the columns handed to \<open>adjoin\<close> for each block.
\<close>

fun bin_rows ::
  "string list \<Rightarrow> string list list \<Rightarrow> nat \<Rightarrow> int \<Rightarrow> int \<Rightarrow> int \<Rightarrow> int list \<Rightarrow>
     string list list list" where
  "bin_rows idx strcols frame_len nbins i st [] = []"
| "bin_rows idx strcols frame_len nbins i st (ed # col_bins) =
     (let row = idx # slice strcols st ed;
          row' = (if nbins > 1
                  then (if ed \<le> int (length strcols) \<and> i < nbins - 1
                        then row @ [[CHR '' '', CHR 0x5C] # replicate (frame_len - 1) ''  '']
                        else row @ [replicate frame_len '' ''])
                  else row)
      in row' # bin_rows idx strcols frame_len nbins (i + 1) ed col_bins)"

text \<open>
  \<open>_join_multiline\<close> up to the call of \<open>adjoin\<close>. With \<open>self.index\<close> the first column is
  popped as \<open>idx\<close> and its width plus one is taken off the line width; without it \<open>idx\<close>
  is never bound and the first \<open>row.insert(0, idx)\<close> raises.
\<close>

definition col_width :: "string list \<Rightarrow> int" where
  "col_width col = (if length col > 0 then Max (set (map (\<lambda>x. int (length x)) col)) else 0)"

definition join_multiline_rows ::
  "int \<Rightarrow> bool \<Rightarrow> nat \<Rightarrow> string list list \<Rightarrow> error + string list list list" where
  "join_multiline_rows line_width index frame_len strcols =
     (if index then
        (case strcols of
           [] \<Rightarrow> Inl IndexError
         | idx # strcols' \<Rightarrow>
             if idx = [] then Inl ZeroSizeError
             else
               let lwidth = line_width - (Max (set (map (\<lambda>x. int (length x)) idx)) + 1);
                   col_widths = map col_width strcols';
                   col_bins = binify col_widths lwidth;
                   nbins = int (length col_bins)
               in Inr (bin_rows idx strcols' frame_len nbins 0 0 col_bins))
      else Inl (NameError ''idx''))"

text \<open>
  \<open>adjoin\<close> comes from \<open>pandas.core.common\<close> and is a parameter here; the blocks are
  joined by an empty line.
\<close>

fun join_blocks :: "string list \<Rightarrow> string" where
  "join_blocks [] = []"
| "join_blocks [b] = b"
| "join_blocks (b # bs) = b @ [CHR 0x0A, CHR 0x0A] @ join_blocks bs"

definition join_multiline ::
  "(int \<Rightarrow> string list list \<Rightarrow> string) \<Rightarrow> int \<Rightarrow> bool \<Rightarrow> nat \<Rightarrow> string list list \<Rightarrow>
     error + string" where
  "join_multiline adjoin line_width index frame_len strcols =
     (case join_multiline_rows line_width index frame_len strcols of
        Inl e \<Rightarrow> Inl e
      | Inr rows \<Rightarrow> Inr (join_blocks (map (adjoin 1) rows)))"

subsection \<open>Header writers: \<open>CSVFormatter._save_header\<close> and \<open>ExcelFormatter._format_header_regular\<close>\<close>

text \<open>
  The \<open>header\<close> argument is a flag or a sequence of aliases
  (\<open>isinstance(header, (tuple, list, np.ndarray))\<close>). The \<open>index_label\<close> argument is \<open>None\<close>,
  \<open>False\<close>, one label, a list, or another sequence (a tuple or an array; the source tells
  a list apart with \<open>isinstance(index_label, list)\<close>).
\<close>

datatype header_arg = HeaderFlag bool | HeaderAliases "string list"

datatype label_arg =
  LabelNone | LabelFalse | LabelScalar string | LabelList "string list" | LabelTuple "string list"

text \<open>The row index of the frame: its name, or the names of its levels when hierarchical.\<close>

datatype index_names = FlatIndex "string option" | MultiIndexNames "string option list"

fun has_aliases_of :: "header_arg \<Rightarrow> bool" where
  "has_aliases_of (HeaderAliases _) = True"
| "has_aliases_of (HeaderFlag _) = False"

text \<open>The truth value of \<open>self.header\<close>: a flag is itself, a sequence is true when not empty.\<close>

fun header_truth :: "header_arg \<Rightarrow> bool" where
  "header_truth (HeaderFlag b) = b"
| "header_truth (HeaderAliases al) = (al \<noteq> [])"

fun aliases_of :: "header_arg \<Rightarrow> string list" where
  "aliases_of (HeaderAliases al) = al"
| "aliases_of (HeaderFlag _) = []"

text \<open>
  The fields of a \<open>CSVFormatter\<close> that \<open>_save_header\<close> reads. \<open>csv_mi_columns\<close> holds, for
  each level of hierarchical columns, \<open>columns.names[i]\<close> and \<open>columns.get_level_values(i)\<close>.
\<close>

record csv_formatter =
  csv_header :: header_arg
  csv_index :: bool
  csv_index_label :: label_arg
  csv_cols :: "string list"
  csv_has_mi_columns :: bool
  csv_obj_index :: index_names
  csv_mi_columns :: "(string \<times> string list) list"

text \<open>
  What the \<open>if index_label is not False\<close> block leaves in \<open>index_label\<close>: a list, unless
  a tuple or an array was passed.
\<close>

fun resolve_index_label :: "index_names \<Rightarrow> label_arg \<Rightarrow> label_arg" where
  "resolve_index_label (MultiIndexNames names) LabelNone =
     LabelList (map (\<lambda>name. case name of None \<Rightarrow> [] | Some n \<Rightarrow> n) names)"
| "resolve_index_label (FlatIndex None) LabelNone = LabelList [[]]"
| "resolve_index_label (FlatIndex (Some n)) LabelNone = LabelList [n]"
| "resolve_index_label ix (LabelScalar l) = LabelList [l]"
| "resolve_index_label ix (LabelList ls) = LabelList ls"
| "resolve_index_label ix (LabelTuple ls) = LabelTuple ls"
| "resolve_index_label ix LabelFalse = LabelFalse"

text \<open>\<open>list(index_label)\<close> for the sequences.\<close>

fun label_list :: "label_arg \<Rightarrow> string list" where
  "label_list (LabelList ls) = ls"
| "label_list (LabelTuple ls) = ls"
| "label_list _ = []"

text \<open>\<open>isinstance(index_label, list) and len(index_label) > 1\<close>.\<close>

fun long_label_list :: "label_arg \<Rightarrow> bool" where
  "long_label_list (LabelList ls) = (length ls > 1)"
| "long_label_list _ = False"

text \<open>
  \<open>_save_header\<close>. The result is the rows handed to \<open>writer.writerow\<close>, in order, or the
  exception raised; nothing is written before the alias check.
\<close>

definition save_header :: "csv_formatter \<Rightarrow> error + string list list" where
  "save_header self =
     (let index_label = csv_index_label self;
          cols = csv_cols self;
          has_mi_columns = csv_has_mi_columns self;
          header = csv_header self;
          has_aliases = has_aliases_of header
      in if \<not> (has_aliases \<or> header_truth header) then Inr []
         else
           (case
              (if csv_index self then
                 (let index_label' =
                        (if index_label \<noteq> LabelFalse
                         then resolve_index_label (csv_obj_index self) index_label
                         else index_label);
                      encoded_labels =
                        (if index_label \<noteq> LabelFalse then label_list index_label' else [])
                  in if has_aliases \<and> length (aliases_of header) \<noteq> length cols
                     then Inl (AliasCountError (length cols) (length (aliases_of header)))
                     else
                       let write_cols = (if has_aliases then aliases_of header else cols)
                       in Inr (index_label',
                               if \<not> has_mi_columns then encoded_labels @ write_cols
                               else encoded_labels))
               else Inr (index_label, if \<not> has_mi_columns then cols else []))
            of
              Inl e \<Rightarrow> Inl e
            | Inr (index_label', encoded_labels) \<Rightarrow>
                if has_mi_columns then
                  Inr (map (\<lambda>(name, level_values).
                              (if csv_index self
                               then name #
                                 (if long_label_list index_label'
                                  then replicate (length (label_list index_label') - 1) []
                                  else [])
                               else []) @ level_values)
                         (csv_mi_columns self)
                       @ [encoded_labels @ replicate (length cols) []])
                else Inr [encoded_labels]))"

text \<open>
  The fields of an \<open>ExcelFormatter\<close> that \<open>_format_header_regular\<close> reads; the row index of
  the frame is flat or a list of label tuples. A cell is \<open>ExcelCell(row, col, val,
  header_style)\<close>, kept here as row, column and value.
\<close>

datatype df_index = DfFlat | DfMulti "string list list"

record excel_formatter =
  xl_header :: header_arg
  xl_index :: bool
  xl_df_index :: df_index
  xl_columns :: "string list"
  xl_rowcounter :: nat

text \<open>
  \<open>_format_header_regular\<close>, a generator: the result is the cells it yields, or the
  exception that the first \<open>next\<close> raises (\<open>self.df.index[0]\<close> on an empty hierarchical
  index, or the alias check).
\<close>

definition format_header_regular :: "excel_formatter \<Rightarrow> error + (nat \<times> nat \<times> string) list" where
  "format_header_regular self =
     (let has_aliases = has_aliases_of (xl_header self)
      in if has_aliases \<or> header_truth (xl_header self) then
           (case (case xl_df_index self of
                    DfFlat \<Rightarrow> Inr (if xl_index self then 1 else 0)
                  | DfMulti [] \<Rightarrow> Inl IndexError
                  | DfMulti (first # _) \<Rightarrow> Inr (length first))
            of
              Inl e \<Rightarrow> Inl e
            | Inr coloffset \<Rightarrow>
                if has_aliases \<and> length (aliases_of (xl_header self)) \<noteq> length (xl_columns self)
                then Inl (AliasCountError (length (xl_columns self))
                            (length (aliases_of (xl_header self))))
                else
                  let colnames = (if has_aliases then aliases_of (xl_header self)
                                  else xl_columns self)
                  in Inr (map (\<lambda>(colindex, colname).
                                 (xl_rowcounter self, colindex + coloffset, colname))
                            (enumerate 0 colnames)))
         else Inr [])"

subsection \<open>Value formatters: \<open>GenericArrayFormatter\<close> and \<open>FloatArrayFormatter\<close>\<close>

text \<open>
  A raw value of an object column: the marker \<open>None\<close>, the float null \<open>NaN\<close>, another
  float, or any other object. \<open>lib.checknull\<close> holds of the two nulls, \<open>com.is_float\<close> of
  the floats, \<open>NaN\<close> among them.
\<close>

datatype ('f, 'o) pyvalue = PyNone | NaN | Float 'f | Obj 'o

fun checknull :: "('f, 'o) pyvalue \<Rightarrow> bool" where
  "checknull PyNone = True"
| "checknull NaN = True"
| "checknull _ = False"

fun is_float :: "('f, 'o) pyvalue \<Rightarrow> bool" where
  "is_float NaN = True"
| "is_float (Float _) = True"
| "is_float _ = False"

text \<open>
  The inner function \<open>_format\<close> of \<open>GenericArrayFormatter._format_strings\<close>; \<open>na_rep\<close> is
  \<open>self.na_rep\<close> (\<open>None\<close> allowed) and \<open>formatter\<close> is \<open>self.formatter\<close> or the default
  pretty-printer.
\<close>

definition generic_format ::
  "string option \<Rightarrow> (('f, 'o) pyvalue \<Rightarrow> string) \<Rightarrow> ('f, 'o) pyvalue \<Rightarrow> string" where
  "generic_format na_rep formatter x =
     (if na_rep \<noteq> None \<and> checknull x
      then (if x = PyNone then ''None'' else the na_rep)
      else formatter x)"

text \<open>
  \<open>_format_strings\<close>: \<open>is_float\<close> marks the floats that are not null, \<open>float_format\<close> is
  applied to those, and every other entry gets one leading space.
\<close>

definition format_strings ::
  "string option \<Rightarrow> (('f, 'o) pyvalue \<Rightarrow> string) \<Rightarrow> (('f, 'o) pyvalue \<Rightarrow> string) \<Rightarrow>
     ('f, 'o) pyvalue list \<Rightarrow> string list" where
  "format_strings na_rep formatter float_format vals =
     (let is_float_notnull = (\<lambda>v. is_float v \<and> \<not> checknull v);
          leading_space = list_ex is_float_notnull vals
      in map (\<lambda>v. if \<not> is_float_notnull v \<and> leading_space
                   then CHR '' '' # generic_format na_rep formatter v
                   else if is_float_notnull v then float_format v
                   else CHR '' '' # generic_format na_rep formatter v) vals)"

text \<open>
  A value of a float column: \<open>NaN\<close>, an infinity, or a finite float. A finite float is
  taken as the real number it is written as; the rounding of floats to binary is not
  modelled, so the literal \<open>1e8\<close> is \<open>10^8\<close> and \<open>10 ** (-digits)\<close> is that power of ten.
  \<open>notnull\<close> holds of everything but \<open>NaN\<close>.
\<close>

datatype pyfloat = FNaN | PosInf | NegInf | Finite real

definition float_notnull :: "pyfloat \<Rightarrow> bool" where
  "float_notnull x = (x \<noteq> FNaN)"

text \<open>\<open>abs(x)\<close>, and the comparisons \<open>x > c\<close> and \<open>x < c\<close> with a finite \<open>c\<close>.\<close>

fun fabs :: "pyfloat \<Rightarrow> pyfloat" where
  "fabs (Finite r) = Finite \<bar>r\<bar>"
| "fabs NegInf = PosInf"
| "fabs PosInf = PosInf"
| "fabs FNaN = FNaN"

fun float_gt :: "pyfloat \<Rightarrow> real \<Rightarrow> bool" where
  "float_gt (Finite r) c = (r > c)"
| "float_gt PosInf c = True"
| "float_gt NegInf c = False"
| "float_gt FNaN c = False"

fun float_lt :: "pyfloat \<Rightarrow> real \<Rightarrow> bool" where
  "float_lt (Finite r) c = (r < c)"
| "float_lt PosInf c = False"
| "float_lt NegInf c = True"
| "float_lt FNaN c = False"

text \<open>\<open>10 ** n\<close> for an integer \<open>n\<close>.\<close>

definition py_pow10 :: "int \<Rightarrow> real" where
  "py_pow10 n = (if 0 \<le> n then 10 ^ nat n else 1 / 10 ^ nat (- n))"

text \<open>
  The format strings that \<open>FloatArrayFormatter\<close> builds, \<open>'% .Nf'\<close> and \<open>'% .Ne'\<close>, with
  their \<open>N\<close>. The digits that the \<open>%\<close> operator prints for a float are not modelled:
  \<open>percent fmt x\<close> stands for \<open>fmt % x\<close> with a format string that is well formed, a
  parameter of the formatter. With a negative \<open>N\<close> the format string is not well formed
  and the operator raises.
\<close>

datatype fmt_str = FixedFmt int | SciFmt int

fun endswith_e :: "fmt_str \<Rightarrow> bool" where
  "endswith_e (SciFmt _) = True"
| "endswith_e (FixedFmt _) = False"

fun well_formed :: "fmt_str \<Rightarrow> bool" where
  "well_formed (SciFmt n) = (0 \<le> n)"
| "well_formed (FixedFmt n) = (0 \<le> n)"

text \<open>
  The inner function \<open>_val\<close> of \<open>_format_with\<close>; \<open>threshold\<close> is the option
  \<open>display.chop_threshold\<close>. A value that is not null and not above the threshold gives
  the bare \<open>0\<close> under the \<open>e\<close> format and \<open>fmt_str % 0\<close> under the other.
\<close>

definition float_val ::
  "(fmt_str \<Rightarrow> pyfloat \<Rightarrow> string) \<Rightarrow> string \<Rightarrow> real option \<Rightarrow> fmt_str \<Rightarrow> pyfloat \<Rightarrow>
     error + string" where
  "float_val percent na_rep threshold fmt x =
     (if float_notnull x then
        (if threshold = None \<or> float_gt (fabs x) (the threshold)
         then (if well_formed fmt then Inr (percent fmt x) else Inl FormatError)
         else if endswith_e fmt then Inr ''0''
         else (if well_formed fmt then Inr (percent fmt (Finite 0)) else Inl FormatError))
      else Inr na_rep)"

text \<open>The list comprehension over \<open>_val\<close>: the first exception ends it.\<close>

fun collect :: "(error + 'a) list \<Rightarrow> error + 'a list" where
  "collect [] = Inr []"
| "collect (Inl e # rs) = Inl e"
| "collect (Inr v # rs) = (case collect rs of Inl e \<Rightarrow> Inl e | Inr vs \<Rightarrow> Inr (v # vs))"

text \<open>\<open>_format_with\<close>: the values one by one, then the trim pass.\<close>

definition format_with ::
  "(fmt_str \<Rightarrow> pyfloat \<Rightarrow> string) \<Rightarrow> string \<Rightarrow> real option \<Rightarrow> pyfloat list \<Rightarrow> fmt_str \<Rightarrow>
     error + string list" where
  "format_with percent na_rep threshold vals fmt =
     (case collect (map (float_val percent na_rep threshold fmt) vals) of
        Inl e \<Rightarrow> Inl e
      | Inr fmt_values \<Rightarrow> Inr (trim_zeros fmt_values na_rep))"

text \<open>
  \<open>FloatArrayFormatter.get_result\<close>; \<open>formatter\<close> is \<open>self.formatter\<close> after \<open>__init__\<close>,
  which puts \<open>float_format\<close> there when no formatter was given.
\<close>

definition float_init_formatter ::
  "(pyfloat \<Rightarrow> string) option \<Rightarrow> (pyfloat \<Rightarrow> string) option \<Rightarrow> (pyfloat \<Rightarrow> string) option" where
  "float_init_formatter formatter float_format =
     (if float_format \<noteq> None \<and> formatter = None then float_format else formatter)"

definition float_get_result ::
  "(fmt_str \<Rightarrow> pyfloat \<Rightarrow> string) \<Rightarrow> (string \<Rightarrow> nat) \<Rightarrow> int option \<Rightarrow> real option \<Rightarrow>
     (pyfloat \<Rightarrow> string) option \<Rightarrow> string \<Rightarrow> int \<Rightarrow> string \<Rightarrow> pyfloat list \<Rightarrow>
     error + string list" where
  "float_get_result percent strlen conf_max threshold formatter na_rep digits justify vals =
     (case
        (case formatter of
           Some f \<Rightarrow> Inr (map f vals)
         | None \<Rightarrow>
             (case format_with percent na_rep threshold vals (FixedFmt (digits - 1)) of
                Inl e \<Rightarrow> Inl e
              | Inr fmt_values \<Rightarrow>
                  let maxlen = (if length fmt_values > 0
                                then Max (set (map (\<lambda>x. int (length x)) fmt_values)) else 0);
                      too_long = (maxlen > digits + 5);
                      has_large_values = list_ex (\<lambda>x. float_gt (fabs x) 100000000) vals;
                      has_small_values =
                        list_ex (\<lambda>x. float_lt (fabs x) (py_pow10 (- digits)) \<and>
                                      float_gt (fabs x) 0) vals
                  in if too_long \<and> has_large_values
                     then format_with percent na_rep threshold vals (SciFmt (digits - 1))
                     else if has_small_values
                     then format_with percent na_rep threshold vals (SciFmt (digits - 1))
                     else Inr fmt_values))
      of
        Inl e \<Rightarrow> Inl e
      | Inr fmt_values \<Rightarrow> Inr (make_fixed_width strlen conf_max fmt_values justify None))"

text \<open>
  What Python prints for the floats of the scenarios below, by table: \<open>1e10\<close>, \<open>0.0001\<close>
  and \<open>0\<close> under the two formats with six fractional digits. No other value is printed
  there.
\<close>

definition scenario_percent :: "fmt_str \<Rightarrow> pyfloat \<Rightarrow> string" where
  "scenario_percent fmt x =
     (if x = Finite 10000000000
      then (if endswith_e fmt then '' 1.000000e+10'' else '' 10000000000.000000'')
      else if x = Finite (1 / 10000)
      then (if endswith_e fmt then '' 1.000000e-04'' else '' 0.000100'')
      else (if endswith_e fmt then '' 0.000000e+00'' else '' 0.000000''))"

subsection \<open>The delimited writer: \<open>CSVFormatter._save\<close>\<close>

text \<open>
  \<open>__init__\<close>: \<open>chunksize = (100000 / (len(self.cols) or 1)) or 1\<close> when none is given
  (integer division).
\<close>

definition default_chunksize :: "int \<Rightarrow> int" where
  "default_chunksize ncols =
     (let q = 100000 div (if ncols \<noteq> 0 then ncols else 1) in if q \<noteq> 0 then q else 1)"

definition init_chunksize :: "int option \<Rightarrow> string list \<Rightarrow> int" where
  "init_chunksize chunksize cols =
     (case chunksize of None \<Rightarrow> default_chunksize (int (length cols)) | Some c \<Rightarrow> c)"








section \<open>Properties\<close>

subsection \<open>The trim pass\<close>

lemma trim_cond_iff:
  "trim_cond na_rep xs \<longleftrightarrow>
     (\<exists>x \<in> set xs. x \<noteq> na_rep) \<and>
     (\<forall>x \<in> set xs. x \<noteq> na_rep \<longrightarrow>
        x \<noteq> [] \<and> last x = CHR ''0'' \<and> CHR ''e'' \<notin> set x \<and> CHR ''E'' \<notin> set x)"
  by (auto simp: trim_cond_def Let_def list_all_iff list_ex_iff endswith_char_def filter_empty_conv)

lemma trim_loop_iters: "trim_loop na_rep xs = (trim_step na_rep ^^ trim_iters na_rep xs) xs"
proof (induction na_rep xs rule: trim_loop.induct)
  case (1 na_rep trimmed)
  show ?case
  proof (cases "trim_cond na_rep trimmed")
    case True
    with 1 show ?thesis
      by (simp add: trim_loop.simps [of na_rep trimmed] trim_iters.simps [of na_rep trimmed]
          funpow_swap1)
  next
    case False
    then show ?thesis
      by (simp add: trim_loop.simps [of na_rep trimmed] trim_iters.simps [of na_rep trimmed])
  qed
qed

lemma trim_loop_stops: "\<not> trim_cond na_rep (trim_loop na_rep xs)"
proof (induction na_rep xs rule: trim_loop.induct)
  case (1 na_rep trimmed)
  then show ?case
    by (cases "trim_cond na_rep trimmed") (simp_all add: trim_loop.simps [of na_rep trimmed])
qed

lemma trim_iters_before:
  "j < trim_iters na_rep xs \<Longrightarrow> trim_cond na_rep ((trim_step na_rep ^^ j) xs)"
proof (induction na_rep xs arbitrary: j rule: trim_iters.induct)
  case (1 na_rep trimmed)
  show ?case
  proof (cases "trim_cond na_rep trimmed")
    case True
    show ?thesis
    proof (cases j)
      case 0
      with True show ?thesis by simp
    next
      case (Suc j')
      with "1.prems" True have "j' < trim_iters na_rep (trim_step na_rep trimmed)"
        by (simp add: trim_iters.simps [of na_rep trimmed])
      with True have "trim_cond na_rep ((trim_step na_rep ^^ j') (trim_step na_rep trimmed))"
        by (rule "1.IH")
      with Suc show ?thesis by (simp add: funpow_swap1)
    qed
  next
    case False
    with "1.prems" show ?thesis by (simp add: trim_iters.simps [of na_rep trimmed])
  qed
qed

lemma non_na_len_step_le: "non_na_len na_rep (trim_step na_rep xs) \<le> non_na_len na_rep xs"
  by (induction xs) (auto simp: non_na_len_def trim_step_def)

lemma non_na_len_decreases:
  assumes "trim_cond na_rep xs"
  shows "non_na_len na_rep (trim_step na_rep xs) < non_na_len na_rep xs"
proof -
  from assms have ex: "\<exists>x \<in> set xs. x \<noteq> na_rep"
    and all: "\<forall>x \<in> set xs. x \<noteq> na_rep \<longrightarrow> x \<noteq> []"
    by (simp_all add: trim_cond_iff)
  from ex all show ?thesis
  proof (induction xs)
    case Nil
    then show ?case by simp
  next
    case (Cons a xs)
    note le = non_na_len_step_le [of na_rep xs]
    show ?case
    proof (cases "a \<noteq> na_rep")
      case True
      with Cons.prems have "a \<noteq> []" by simp
      then obtain n where n: "length a = Suc n" by (cases a) auto
      have "non_na_len na_rep (trim_step na_rep (a # xs))
              \<le> n + non_na_len na_rep (trim_step na_rep xs)"
        using True n by (simp add: trim_step_def non_na_len_def)
      moreover have "non_na_len na_rep (a # xs) = Suc n + non_na_len na_rep xs"
        using True n by (simp add: non_na_len_def)
      ultimately show ?thesis using le by linarith
    next
      case False
      with Cons.prems have "\<exists>x \<in> set xs. x \<noteq> na_rep" by simp
      moreover from Cons.prems have "\<forall>x \<in> set xs. x \<noteq> na_rep \<longrightarrow> x \<noteq> []" by simp
      ultimately have "non_na_len na_rep (trim_step na_rep xs) < non_na_len na_rep xs"
        by (rule Cons.IH)
      with False show ?thesis by (simp add: trim_step_def non_na_len_def)
    qed
  qed
qed

lemma trim_iters_bound: "trim_iters na_rep xs \<le> non_na_len na_rep xs"
proof (induction na_rep xs rule: trim_iters.induct)
  case (1 na_rep trimmed)
  show ?case
  proof (cases "trim_cond na_rep trimmed")
    case True
    with 1 non_na_len_decreases [OF True] show ?thesis
      by (simp add: trim_iters.simps [of na_rep trimmed])
  next
    case False
    then show ?thesis by (simp add: trim_iters.simps [of na_rep trimmed])
  qed
qed

lemma trim_step_na: "\<forall>x \<in> set xs. x = na_rep \<Longrightarrow> trim_step na_rep xs = xs"
  by (induction xs) (auto simp: trim_step_def)

lemma trim_step_length: "length (trim_step na_rep xs) = length xs"
  by (simp add: trim_step_def)

lemma trim_step_nth:
  "i < length xs \<Longrightarrow>
     trim_step na_rep xs ! i = (if xs ! i \<noteq> na_rep then butlast (xs ! i) else xs ! i)"
  by (simp add: trim_step_def)

lemma trim_step_funpow_length: "length ((trim_step na_rep ^^ k) xs) = length xs"
  by (induction k) (simp_all add: trim_step_length)

lemma trim_step_funpow_na:
  "i < length xs \<Longrightarrow> xs ! i = na_rep \<Longrightarrow> (trim_step na_rep ^^ k) xs ! i = na_rep"
proof (induction k)
  case 0
  then show ?case by simp
next
  case (Suc k)
  then show ?case by (simp add: trim_step_nth trim_step_funpow_length)
qed

text \<open>
  C10 (amended). The loop of \<open>_trim_zeros\<close> ends on every list of strings and every
  \<open>na_rep\<close>. Whenever the guard holds there is a string other than \<open>na_rep\<close>, every such
  string is non-empty and ends in \<open>0\<close>, the body shortens each of them by exactly one
  character, and the summed length of the strings other than \<open>na_rep\<close> strictly drops; the
  loop result is the body iterated \<open>trim_iters\<close> times, a number bounded by that summed
  length, and the guard fails on it. A list of \<open>na_rep\<close> strings only, and a list holding
  an empty string when \<open>na_rep\<close> is not itself empty, leave the loop at once.
\<close>

theorem trim_zeros_terminates:
  "(trim_cond na_rep xs \<longrightarrow>
      (\<exists>x \<in> set xs. x \<noteq> na_rep) \<and>
      (\<forall>i < length xs. xs ! i \<noteq> na_rep \<longrightarrow>
         xs ! i \<noteq> [] \<and> last (xs ! i) = CHR ''0'' \<and>
         Suc (length (trim_step na_rep xs ! i)) = length (xs ! i)) \<and>
      non_na_len na_rep (trim_step na_rep xs) < non_na_len na_rep xs) \<and>
   trim_loop na_rep xs = (trim_step na_rep ^^ trim_iters na_rep xs) xs \<and>
   trim_iters na_rep xs \<le> non_na_len na_rep xs \<and>
   \<not> trim_cond na_rep (trim_loop na_rep xs) \<and>
   ((\<forall>x \<in> set xs. x = na_rep) \<longrightarrow> trim_iters na_rep xs = 0 \<and> trim_loop na_rep xs = xs) \<and>
   ([] \<in> set xs \<and> na_rep \<noteq> [] \<longrightarrow> trim_iters na_rep xs = 0 \<and> trim_loop na_rep xs = xs)"
proof -
  have a: "(\<exists>x \<in> set xs. x \<noteq> na_rep) \<and>
      (\<forall>i < length xs. xs ! i \<noteq> na_rep \<longrightarrow>
         xs ! i \<noteq> [] \<and> last (xs ! i) = CHR ''0'' \<and>
         Suc (length (trim_step na_rep xs ! i)) = length (xs ! i)) \<and>
      non_na_len na_rep (trim_step na_rep xs) < non_na_len na_rep xs" if c: "trim_cond na_rep xs"
  proof -
    from c have ex: "\<exists>x \<in> set xs. x \<noteq> na_rep"
      and all: "\<And>x. x \<in> set xs \<Longrightarrow> x \<noteq> na_rep \<Longrightarrow> x \<noteq> [] \<and> last x = CHR ''0''"
      by (auto simp: trim_cond_iff)
    have "xs ! i \<noteq> [] \<and> last (xs ! i) = CHR ''0'' \<and>
         Suc (length (trim_step na_rep xs ! i)) = length (xs ! i)"
      if "i < length xs" "xs ! i \<noteq> na_rep" for i
    proof -
      from that all [of "xs ! i"] have ne: "xs ! i \<noteq> []" and l: "last (xs ! i) = CHR ''0''"
        by simp_all
      from ne have "Suc (length (butlast (xs ! i))) = length (xs ! i)" by simp
      with that ne l show ?thesis by (simp add: trim_step_def)
    qed
    with ex non_na_len_decreases [OF c] show ?thesis by blast
  qed
  have b: "trim_iters na_rep xs = 0 \<and> trim_loop na_rep xs = xs" if "\<not> trim_cond na_rep xs"
    using that by (simp add: trim_iters.simps [of na_rep xs] trim_loop.simps [of na_rep xs])
  have c: "\<not> trim_cond na_rep xs" if "\<forall>x \<in> set xs. x = na_rep"
    using that by (auto simp: trim_cond_iff)
  have d: "\<not> trim_cond na_rep xs" if "[] \<in> set xs \<and> na_rep \<noteq> []"
    using that by (auto simp: trim_cond_iff)
  from a b c d trim_loop_iters [of na_rep xs] trim_iters_bound [of na_rep xs]
    trim_loop_stops [of na_rep xs]
  show ?thesis by blast
qed

theorem trim_zeros_terminates_witness:
  "trim_cond ''NaN'' [''1.50'', ''NaN'', ''20.00''] \<and>
   non_na_len ''NaN'' (trim_step ''NaN'' [''1.50'', ''NaN'', ''20.00'']) = 7 \<and>
   non_na_len ''NaN'' [''1.50'', ''NaN'', ''20.00''] = 9 \<and>
   trim_iters ''NaN'' [''1.50'', ''NaN'', ''20.00''] = 1 \<and>
   trim_loop ''NaN'' [''1.50'', ''NaN'', ''20.00''] = [''1.5'', ''NaN'', ''20.0''] \<and>
   trim_loop ''NaN'' [''NaN'', ''NaN''] = [''NaN'', ''NaN''] \<and>
   trim_loop ''NaN'' [''10'', ''''] = [''10'', '''']"
  using trim_zeros_terminates [of "''NaN''" "[''1.50'', ''NaN'', ''20.00'']"]
    trim_zeros_terminates [of "''NaN''" "[''NaN'', ''NaN'']"]
    trim_zeros_terminates [of "''NaN''" "[''10'', '''']"]
  by (simp add: trim_cond_def endswith_char_def non_na_len_def trim_step_def
      trim_iters.simps trim_loop.simps)

text \<open>
  With the empty string as \<open>na_rep\<close>, a list that holds an empty string still enters the
  loop: the empty string is then the null marker, not a number.
\<close>

theorem trim_loop_empty_na_rep_counterexample:
  "[] \<in> set [[], ''10''] \<and> trim_cond [] [[], ''10''] \<and>
   trim_iters [] [[], ''10''] = 1 \<and> trim_loop [] [[], ''10''] = [[], ''1'']"
  by (simp add: trim_cond_def endswith_char_def trim_step_def trim_iters.simps trim_loop.simps)

lemma trim_zeros_length: "length (trim_zeros xs na_rep) = length xs"
  by (simp add: trim_zeros_def trim_loop_iters trim_step_funpow_length)

lemma trim_zeros_na:
  assumes "i < length xs" "xs ! i = na_rep"
  shows "trim_zeros xs na_rep ! i = na_rep"
  using assms trim_step_funpow_na [OF assms, of "trim_iters na_rep xs"]
  by (simp add: trim_zeros_def trim_loop_iters trim_step_funpow_length)

text \<open>
  C3. \<open>_trim_zeros\<close> removes the last character of every string other than \<open>na_rep\<close>, all
  at once, \<open>trim_iters\<close> times: before each of these passes every string other than
  \<open>na_rep\<close> ends in \<open>0\<close> and none holds \<open>e\<close> or \<open>E\<close>, and after the last pass either some
  string other than \<open>na_rep\<close> does not end in \<open>0\<close> or holds \<open>e\<close> or \<open>E\<close>, or no string
  other than \<open>na_rep\<close> is left (a further pass would change nothing). Then one trailing
  decimal point is removed from every string other than \<open>na_rep\<close> that ends in one. The
  list keeps its length and the strings equal to \<open>na_rep\<close> come back unchanged.
\<close>

theorem trim_zeros_spec:
  "trim_zeros xs na_rep =
     map (\<lambda>x. if x \<noteq> na_rep \<and> x \<noteq> [] \<and> last x = CHR ''.'' then butlast x else x)
       ((trim_step na_rep ^^ trim_iters na_rep xs) xs) \<and>
   (\<forall>j < trim_iters na_rep xs.
      (\<exists>y \<in> set ((trim_step na_rep ^^ j) xs). y \<noteq> na_rep) \<and>
      (\<forall>y \<in> set ((trim_step na_rep ^^ j) xs). y \<noteq> na_rep \<longrightarrow>
         y \<noteq> [] \<and> last y = CHR ''0'' \<and> CHR ''e'' \<notin> set y \<and> CHR ''E'' \<notin> set y) \<and>
      (trim_step na_rep ^^ Suc j) xs =
        map (\<lambda>y. if y \<noteq> na_rep then butlast y else y) ((trim_step na_rep ^^ j) xs)) \<and>
   ((\<forall>y \<in> set ((trim_step na_rep ^^ trim_iters na_rep xs) xs). y = na_rep) \<or>
    (\<exists>y \<in> set ((trim_step na_rep ^^ trim_iters na_rep xs) xs).
       y \<noteq> na_rep \<and> (y = [] \<or> last y \<noteq> CHR ''0'' \<or> CHR ''e'' \<in> set y \<or> CHR ''E'' \<in> set y))) \<and>
   length (trim_zeros xs na_rep) = length xs \<and>
   (\<forall>i < length xs. xs ! i = na_rep \<longrightarrow> trim_zeros xs na_rep ! i = xs ! i)"
proof -
  have a: "trim_zeros xs na_rep =
     map (\<lambda>x. if x \<noteq> na_rep \<and> x \<noteq> [] \<and> last x = CHR ''.'' then butlast x else x)
       ((trim_step na_rep ^^ trim_iters na_rep xs) xs)"
    by (simp add: trim_zeros_def trim_loop_iters endswith_char_def conj_ac)
  have b: "(\<exists>y \<in> set ((trim_step na_rep ^^ j) xs). y \<noteq> na_rep) \<and>
      (\<forall>y \<in> set ((trim_step na_rep ^^ j) xs). y \<noteq> na_rep \<longrightarrow>
         y \<noteq> [] \<and> last y = CHR ''0'' \<and> CHR ''e'' \<notin> set y \<and> CHR ''E'' \<notin> set y) \<and>
      (trim_step na_rep ^^ Suc j) xs =
        map (\<lambda>y. if y \<noteq> na_rep then butlast y else y) ((trim_step na_rep ^^ j) xs)"
    if "j < trim_iters na_rep xs" for j
  proof -
    from that have "trim_cond na_rep ((trim_step na_rep ^^ j) xs)" by (rule trim_iters_before)
    then show ?thesis unfolding trim_cond_iff by (simp add: trim_step_def)
  qed
  have "\<not> trim_cond na_rep ((trim_step na_rep ^^ trim_iters na_rep xs) xs)"
    using trim_loop_stops [of na_rep xs] by (simp add: trim_loop_iters)
  then have c: "(\<forall>y \<in> set ((trim_step na_rep ^^ trim_iters na_rep xs) xs). y = na_rep) \<or>
    (\<exists>y \<in> set ((trim_step na_rep ^^ trim_iters na_rep xs) xs).
       y \<noteq> na_rep \<and> (y = [] \<or> last y \<noteq> CHR ''0'' \<or> CHR ''e'' \<in> set y \<or> CHR ''E'' \<in> set y))"
    unfolding trim_cond_iff by blast
  have d: "\<forall>i < length xs. xs ! i = na_rep \<longrightarrow> trim_zeros xs na_rep ! i = xs ! i"
    by (simp add: trim_zeros_na)
  from a b c d trim_zeros_length [of xs na_rep] show ?thesis by blast
qed

theorem trim_zeros_spec_witness:
  "trim_iters ''NaN'' [''1.500'', ''NaN'', ''2.000''] = 2 \<and>
   (0::nat) < 2 \<and> (1::nat) < 2 \<and>
   (trim_step ''NaN'' ^^ 1) [''1.500'', ''NaN'', ''2.000''] = [''1.50'', ''NaN'', ''2.00''] \<and>
   (trim_step ''NaN'' ^^ 2) [''1.500'', ''NaN'', ''2.000''] = [''1.5'', ''NaN'', ''2.0''] \<and>
   trim_zeros [''1.500'', ''NaN'', ''2.000''] ''NaN'' = [''1.5'', ''NaN'', ''2.0''] \<and>
   (1::nat) < length [''1.500'', ''NaN'', ''2.000''] \<and>
   [''1.500'', ''NaN'', ''2.000''] ! 1 = ''NaN'' \<and>
   trim_zeros [''1.500'', ''NaN'', ''2.000''] ''NaN'' ! 1 = ''NaN''"
proof -
  have k: "trim_iters ''NaN'' [''1.500'', ''NaN'', ''2.000''] = 2"
    by (simp add: trim_iters.simps trim_cond_def endswith_char_def trim_step_def)
  have s: "(trim_step ''NaN'' ^^ 2) [''1.500'', ''NaN'', ''2.000''] = [''1.5'', ''NaN'', ''2.0'']"
    by (simp add: trim_step_def numeral_2_eq_2)
  from trim_zeros_spec [of "[''1.500'', ''NaN'', ''2.000'']" "''NaN''"]
  show ?thesis by (simp add: k s) (simp add: trim_step_def)
qed

subsection \<open>Fixed-width layout\<close>

lemma make_fixed_width_nth:
  assumes "strings \<noteq> []" "i < length strings"
  shows "make_fixed_width strlen conf_max strings justify minimum ! i =
     (let w = fixed_width strlen conf_max strings minimum;
          x = strings ! i;
          x' = (case conf_max of
                  None \<Rightarrow> x
                | Some c \<Rightarrow>
                    if c > 3 \<and> int (strlen x) > w then slice_to x (w - 3) @ ''...'' else x)
      in (if justify = ''left'' then ljust else rjust) x' w)"
  using assms by (simp add: make_fixed_width_def fixed_width_def Let_def)

lemma make_fixed_width_length:
  "length (make_fixed_width strlen conf_max strings justify minimum) = length strings"
  by (simp add: make_fixed_width_def Let_def)

lemma longest_ge:
  "x \<in> set strings \<Longrightarrow> int (strlen x) \<le> Max (set (map (\<lambda>x. int (strlen x)) strings))"
  by simp

lemma fixed_width_clamped:
  assumes "x \<in> set strings" "fixed_width strlen conf_max strings minimum < int (strlen x)"
  shows "conf_max = Some (fixed_width strlen conf_max strings minimum)"
proof -
  let ?L = "Max (set (map (\<lambda>x. int (strlen x)) strings))"
  from assms(1) have "int (strlen x) \<le> ?L" by (rule longest_ge)
  with assms(2) show ?thesis
    by (auto simp: fixed_width_def Let_def split: option.splits if_splits)
qed

lemma just_length:
  "int (length x) \<le> w \<Longrightarrow> int (length ((if justify = ''left'' then ljust else rjust) x w)) = w"
  by (simp add: ljust_def rjust_def)

lemma just_long:
  "w \<le> int (length x) \<Longrightarrow> (if justify = ''left'' then ljust else rjust) x w = x"
  by (simp add: ljust_def rjust_def)

text \<open>What the inner function \<open>just\<close> returns for the string at position \<open>i\<close>.\<close>

lemma make_fixed_width_just:
  assumes "strings \<noteq> []" "i < length strings"
  shows "make_fixed_width strlen conf_max strings justify minimum ! i =
     (if justify = ''left'' then ljust else rjust)
       (if (\<exists>c. conf_max = Some c \<and> 3 < c) \<and>
           fixed_width strlen conf_max strings minimum < int (strlen (strings ! i))
        then take (nat (fixed_width strlen conf_max strings minimum - 3)) (strings ! i) @ ''...''
        else strings ! i)
       (fixed_width strlen conf_max strings minimum)"
proof (cases "fixed_width strlen conf_max strings minimum < int (strlen (strings ! i))")
  case True
  from assms(2) have "strings ! i \<in> set strings" by simp
  from fixed_width_clamped [OF this True]
  obtain c where cm: "conf_max = Some c"
    and cw: "fixed_width strlen (Some c) strings minimum = c"
    by simp
  from True cm cw have "c < int (strlen (strings ! i))" by simp
  with assms cm cw show ?thesis
    by (simp add: make_fixed_width_nth Let_def slice_to_def)
next
  case False
  show ?thesis
  proof (cases conf_max)
    case None
    with assms show ?thesis by (simp add: make_fixed_width_nth Let_def)
  next
    case (Some c)
    with assms False show ?thesis by (simp add: make_fixed_width_nth Let_def)
  qed
qed

lemma make_fixed_width_short:
  assumes "strings \<noteq> []" "i < length strings"
    and "strlen (strings ! i) = length (strings ! i)"
    and "int (strlen (strings ! i)) \<le> fixed_width strlen conf_max strings minimum"
  shows "make_fixed_width strlen conf_max strings justify minimum ! i =
           (if justify = ''left''
            then strings ! i @
              replicate (nat (fixed_width strlen conf_max strings minimum -
                int (length (strings ! i)))) (CHR '' '')
            else replicate (nat (fixed_width strlen conf_max strings minimum -
                int (length (strings ! i)))) (CHR '' '') @ strings ! i)"
    and "int (length (make_fixed_width strlen conf_max strings justify minimum ! i)) =
           fixed_width strlen conf_max strings minimum"
  using assms
  by (auto simp: make_fixed_width_just [OF assms(1,2)] ljust_def rjust_def)

lemma make_fixed_width_long:
  assumes "strings \<noteq> []" "i < length strings"
    and "strlen (strings ! i) = length (strings ! i)"
    and "fixed_width strlen conf_max strings minimum < int (strlen (strings ! i))"
  shows "3 < fixed_width strlen conf_max strings minimum \<Longrightarrow>
           make_fixed_width strlen conf_max strings justify minimum ! i =
             take (nat (fixed_width strlen conf_max strings minimum - 3)) (strings ! i) @ ''...''"
    and "3 < fixed_width strlen conf_max strings minimum \<Longrightarrow>
           int (length (make_fixed_width strlen conf_max strings justify minimum ! i)) =
             fixed_width strlen conf_max strings minimum"
    and "fixed_width strlen conf_max strings minimum \<le> 3 \<Longrightarrow>
           make_fixed_width strlen conf_max strings justify minimum ! i = strings ! i"
proof -
  let ?w = "fixed_width strlen conf_max strings minimum"
  let ?x = "strings ! i"
  from assms(2) have "?x \<in> set strings" by simp
  from fixed_width_clamped [OF this assms(4)] have c: "conf_max = Some ?w" .
  from assms(3,4) have long: "?w < int (length ?x)" by simp
  {
    assume w: "3 < ?w"
    let ?t = "take (nat (?w - 3)) ?x @ ''...''"
    from w long have len: "int (length ?t) = ?w" by simp
    from c w have "\<exists>c. conf_max = Some c \<and> 3 < c" by blast
    with assms(4) have "make_fixed_width strlen conf_max strings justify minimum ! i =
        (if justify = ''left'' then ljust else rjust) ?t ?w"
      by (simp only: make_fixed_width_just [OF assms(1,2)] simp_thms if_True)
    also have "\<dots> = ?t" using len by (intro just_long) simp
    finally show "make_fixed_width strlen conf_max strings justify minimum ! i = ?t" .
    with len show "int (length (make_fixed_width strlen conf_max strings justify minimum ! i)) = ?w"
      by simp
  }
  {
    assume w: "?w \<le> 3"
    have "\<not> (\<exists>c. conf_max = Some c \<and> 3 < c)"
    proof
      assume "\<exists>c. conf_max = Some c \<and> 3 < c"
      then obtain c' where "conf_max = Some c'" "3 < c'" by blast
      with c w show False by simp
    qed
    then have "make_fixed_width strlen conf_max strings justify minimum ! i =
        (if justify = ''left'' then ljust else rjust) ?x ?w"
      by (simp only: make_fixed_width_just [OF assms(1,2)] simp_thms if_False)
    also have "\<dots> = ?x" using long by (intro just_long) simp
    finally show "make_fixed_width strlen conf_max strings justify minimum ! i = ?x" .
  }
qed

text \<open>
  C4 (amended). An empty list comes back unchanged. For a non-empty list the width is
  \<open>max(minimum, longest input)\<close>, the inputs measured by \<open>_strlen\<close>, clamped to the
  configured maximum. Every string is justified to that width, \<open>'left'\<close> padding on the
  right and anything else on the left, after being cut to width - 3 bytes plus \<open>...\<close> when
  it measures more than the width and the configured maximum exceeds 3; a string that
  measures more than the width exists only when the width is the configured maximum. For
  a string whose \<open>_strlen\<close> is its \<open>len\<close>: one that fits is padded to exactly the width;
  one that is longer is cut to exactly the width when the maximum exceeds 3 and is
  returned as it is, longer than the width, when the maximum is 3 or less. So when
  \<open>_strlen\<close> is \<open>len\<close> on all the inputs, and the maximum is unset, exceeds 3, or no
  input is longer than it, all results have the same length, the width (which is their
  visible length wherever \<open>_strlen\<close> is \<open>len\<close> on them); and without clamping the width is
  at least the minimum.
\<close>

theorem make_fixed_width_spec:
  "make_fixed_width strlen conf_max [] justify minimum = [] \<and>
   (strings \<noteq> [] \<longrightarrow>
     (let w = fixed_width strlen conf_max strings minimum;
          out = make_fixed_width strlen conf_max strings justify minimum;
          longest = Max (set (map (\<lambda>x. int (strlen x)) strings));
          wanted = (case minimum of None \<Rightarrow> longest | Some m \<Rightarrow> max m longest)
      in length out = length strings \<and>
         w = (case conf_max of None \<Rightarrow> wanted | Some c \<Rightarrow> min c wanted) \<and>
         (\<forall>i < length strings.
            out ! i =
              (if justify = ''left'' then ljust else rjust)
                (if (\<exists>c. conf_max = Some c \<and> 3 < c) \<and> w < int (strlen (strings ! i))
                 then take (nat (w - 3)) (strings ! i) @ ''...'' else strings ! i) w \<and>
            (w < int (strlen (strings ! i)) \<longrightarrow> conf_max = Some w) \<and>
            (strlen (strings ! i) = length (strings ! i) \<longrightarrow>
               (int (length (strings ! i)) \<le> w \<longrightarrow>
                  out ! i =
                    (if justify = ''left''
                     then strings ! i @ replicate (nat (w - int (length (strings ! i)))) (CHR '' '')
                     else replicate (nat (w - int (length (strings ! i)))) (CHR '' '') @ strings ! i) \<and>
                  int (length (out ! i)) = w) \<and>
               (w < int (length (strings ! i)) \<longrightarrow>
                  (3 < w \<longrightarrow>
                     out ! i = take (nat (w - 3)) (strings ! i) @ ''...'' \<and>
                     int (length (out ! i)) = w) \<and>
                  (w \<le> 3 \<longrightarrow> out ! i = strings ! i)))) \<and>
         ((\<forall>x \<in> set strings. strlen x = length x) \<and>
          (\<forall>c. conf_max = Some c \<longrightarrow> 3 < c \<or> longest \<le> c) \<longrightarrow>
            (\<forall>y \<in> set out.
               int (length y) = w \<and> (strlen y = length y \<longrightarrow> int (strlen y) = w))) \<and>
         ((\<forall>c. conf_max = Some c \<longrightarrow> wanted \<le> c) \<longrightarrow>
            w = wanted \<and> (\<forall>m. minimum = Some m \<longrightarrow> m \<le> w))))"
proof -
  let ?w = "fixed_width strlen conf_max strings minimum"
  let ?out = "make_fixed_width strlen conf_max strings justify minimum"
  let ?longest = "Max (set (map (\<lambda>x. int (strlen x)) strings))"
  let ?wanted = "case minimum of None \<Rightarrow> ?longest | Some m \<Rightarrow> max m ?longest"
  have e: "make_fixed_width strlen conf_max [] justify minimum = []"
    by (simp add: make_fixed_width_def)
  have l: "length ?out = length strings" by (rule make_fixed_width_length)
  have w: "?w = (case conf_max of None \<Rightarrow> ?wanted | Some c \<Rightarrow> min c ?wanted)"
    by (auto simp: fixed_width_def Let_def min_def split: option.splits)
  have j: "?out ! i =
              (if justify = ''left'' then ljust else rjust)
                (if (\<exists>c. conf_max = Some c \<and> 3 < c) \<and> ?w < int (strlen (strings ! i))
                 then take (nat (?w - 3)) (strings ! i) @ ''...'' else strings ! i) ?w"
    if "strings \<noteq> []" "i < length strings" for i
    using that by (rule make_fixed_width_just)
  have cl: "conf_max = Some ?w"
    if "i < length strings" "?w < int (strlen (strings ! i))" for i
    using that by (intro fixed_width_clamped [of "strings ! i"]) simp_all
  have per: "(int (length (strings ! i)) \<le> ?w \<longrightarrow>
                  ?out ! i =
                    (if justify = ''left''
                     then strings ! i @ replicate (nat (?w - int (length (strings ! i)))) (CHR '' '')
                     else replicate (nat (?w - int (length (strings ! i)))) (CHR '' '') @ strings ! i) \<and>
                  int (length (?out ! i)) = ?w) \<and>
               (?w < int (length (strings ! i)) \<longrightarrow>
                  (3 < ?w \<longrightarrow>
                     ?out ! i = take (nat (?w - 3)) (strings ! i) @ ''...'' \<and>
                     int (length (?out ! i)) = ?w) \<and>
                  (?w \<le> 3 \<longrightarrow> ?out ! i = strings ! i))"
    if ne: "strings \<noteq> []" and i: "i < length strings"
      and a: "strlen (strings ! i) = length (strings ! i)" for i
  proof (cases "int (length (strings ! i)) \<le> ?w")
    case True
    with a have "int (strlen (strings ! i)) \<le> ?w" by simp
    from make_fixed_width_short [OF ne i a this] True show ?thesis by simp
  next
    case False
    with a have "?w < int (strlen (strings ! i))" by simp
    from make_fixed_width_long [OF ne i a this] False show ?thesis by simp
  qed
  have u: "\<forall>y \<in> set ?out. int (length y) = ?w \<and> (strlen y = length y \<longrightarrow> int (strlen y) = ?w)"
    if ne: "strings \<noteq> []"
      and ok: "(\<forall>x \<in> set strings. strlen x = length x) \<and>
          (\<forall>c. conf_max = Some c \<longrightarrow> 3 < c \<or> ?longest \<le> c)"
  proof
    fix y assume "y \<in> set ?out"
    then obtain i where i: "i < length strings" and y: "y = ?out ! i"
      by (auto simp: in_set_conv_nth l)
    from i ok have a: "strlen (strings ! i) = length (strings ! i)" by simp
    have "int (length y) = ?w"
    proof (cases "int (length (strings ! i)) \<le> ?w")
      case True
      with per [OF ne i a] y show ?thesis by simp
    next
      case False
      then have long: "?w < int (length (strings ! i))" by simp
      with a have "?w < int (strlen (strings ! i))" by simp
      with i have c: "conf_max = Some ?w" by (rule cl)
      from i have "int (strlen (strings ! i)) \<le> ?longest" by (intro longest_ge) simp
      with long a have "\<not> ?longest \<le> ?w" by simp
      with ok c have "3 < ?w" by blast
      with per [OF ne i a] long y show ?thesis by simp
    qed
    then show "int (length y) = ?w \<and> (strlen y = length y \<longrightarrow> int (strlen y) = ?w)" by simp
  qed
  have m: "?w = ?wanted \<and> (\<forall>m. minimum = Some m \<longrightarrow> m \<le> ?w)"
    if "\<forall>c. conf_max = Some c \<longrightarrow> ?wanted \<le> c"
    using that by (auto simp: fixed_width_def Let_def split: option.splits)
  have all: "\<forall>i < length strings.
            ?out ! i =
              (if justify = ''left'' then ljust else rjust)
                (if (\<exists>c. conf_max = Some c \<and> 3 < c) \<and> ?w < int (strlen (strings ! i))
                 then take (nat (?w - 3)) (strings ! i) @ ''...'' else strings ! i) ?w \<and>
            (?w < int (strlen (strings ! i)) \<longrightarrow> conf_max = Some ?w) \<and>
            (strlen (strings ! i) = length (strings ! i) \<longrightarrow>
               (int (length (strings ! i)) \<le> ?w \<longrightarrow>
                  ?out ! i =
                    (if justify = ''left''
                     then strings ! i @ replicate (nat (?w - int (length (strings ! i)))) (CHR '' '')
                     else replicate (nat (?w - int (length (strings ! i)))) (CHR '' '') @ strings ! i) \<and>
                  int (length (?out ! i)) = ?w) \<and>
               (?w < int (length (strings ! i)) \<longrightarrow>
                  (3 < ?w \<longrightarrow>
                     ?out ! i = take (nat (?w - 3)) (strings ! i) @ ''...'' \<and>
                     int (length (?out ! i)) = ?w) \<and>
                  (?w \<le> 3 \<longrightarrow> ?out ! i = strings ! i)))"
    if ne: "strings \<noteq> []"
  proof (intro allI impI conjI)
    fix i assume i: "i < length strings"
    from ne i show "?out ! i =
              (if justify = ''left'' then ljust else rjust)
                (if (\<exists>c. conf_max = Some c \<and> 3 < c) \<and> ?w < int (strlen (strings ! i))
                 then take (nat (?w - 3)) (strings ! i) @ ''...'' else strings ! i) ?w"
      by (rule j)
  next
    fix i assume "i < length strings" "?w < int (strlen (strings ! i))"
    then show "conf_max = Some ?w" by (rule cl)
  next
    fix i assume i: "i < length strings" and a: "strlen (strings ! i) = length (strings ! i)"
    note p = per [OF ne i a]
    {
      assume "int (length (strings ! i)) \<le> ?w"
      with p show "?out ! i =
                    (if justify = ''left''
                     then strings ! i @ replicate (nat (?w - int (length (strings ! i)))) (CHR '' '')
                     else replicate (nat (?w - int (length (strings ! i)))) (CHR '' '') @ strings ! i)"
        and "int (length (?out ! i)) = ?w"
        by blast+
    }
    {
      assume "?w < int (length (strings ! i))" "3 < ?w"
      with p show "?out ! i = take (nat (?w - 3)) (strings ! i) @ ''...''"
        and "int (length (?out ! i)) = ?w"
        by blast+
    }
    {
      assume "?w < int (length (strings ! i))" "?w \<le> 3"
      with p show "?out ! i = strings ! i" by blast
    }
  qed
  show ?thesis
    unfolding Let_def
    by (rule conjI [OF e], rule impI, intro conjI, rule l, rule w, erule all,
        (rule impI, erule u, assumption), (rule impI, rule m, assumption))
qed

theorem make_fixed_width_spec_witness:
  "[''abcdefgh'', ''a''] \<noteq> [] \<and>
   utf8_strlen ''abcdefgh'' = length ''abcdefgh'' \<and> utf8_strlen ''a'' = length ''a'' \<and>
   fixed_width utf8_strlen (Some 5) [''abcdefgh'', ''a''] (Some 2) = 5 \<and>
   make_fixed_width utf8_strlen (Some 5) [''abcdefgh'', ''a''] ''left'' (Some 2) =
     [''ab...'', ''a    ''] \<and>
   make_fixed_width utf8_strlen (Some 5) [''abcdefgh'', ''a''] ''right'' (Some 2) =
     [''ab...'', ''    a''] \<and>
   int (length (make_fixed_width utf8_strlen (Some 5) [''abcdefgh'', ''a''] ''left'' (Some 2) ! 0)) = 5 \<and>
   int (length (make_fixed_width utf8_strlen (Some 5) [''abcdefgh'', ''a''] ''left'' (Some 2) ! 1)) = 5 \<and>
   fixed_width utf8_strlen (Some 50) [''abc'', ''a''] (Some 4) = 4 \<and>
   make_fixed_width utf8_strlen (Some 50) [''abc'', ''a''] ''right'' (Some 4) = ['' abc'', ''   a'']"
  using make_fixed_width_spec [of utf8_strlen "Some 5" "''left''" "Some 2" "[''abcdefgh'', ''a'']"]
    make_fixed_width_spec [of utf8_strlen "Some 50" "''right''" "Some 4" "[''abc'', ''a'']"]
  by (simp add: make_fixed_width_def fixed_width_def slice_to_def ljust_def rjust_def
      utf8_strlen_def eval_nat_numeral)

text \<open>
  With a configured maximum of 3 the long string is neither cut nor padded, and the two
  results differ in length; the strings are ASCII, so \<open>_strlen\<close> is \<open>len\<close> on them.
\<close>

theorem make_fixed_width_uniform_counterexample:
  "make_fixed_width utf8_strlen (Some 3) [''abcdefgh'', ''a''] ''right'' None =
     [''abcdefgh'', ''  a''] \<and>
   utf8_strlen ''abcdefgh'' = 8 \<and> length ''abcdefgh'' = 8 \<and>
   utf8_strlen ''  a'' = 3 \<and> length ''  a'' = 3"
  by (simp add: make_fixed_width_def slice_to_def rjust_def utf8_strlen_def eval_nat_numeral)

text \<open>
  On a Python 2 byte string that holds characters of several bytes the function measures
  characters and pads bytes: the two-character, four-byte UTF-8 string \<open>\xc3\xa9\xc3\xa9\<close>
  beside \<open>abc\<close> gives the width 3, the first string is left alone because it already has
  four bytes, and the results show 2 and 3 characters.
\<close>

lemma make_fixed_width_multibyte:
  "make_fixed_width utf8_strlen (Some 50) [[CHR 0xC3, CHR 0xA9, CHR 0xC3, CHR 0xA9], ''abc'']
     ''right'' None = [[CHR 0xC3, CHR 0xA9, CHR 0xC3, CHR 0xA9], ''abc''] \<and>
   utf8_strlen [CHR 0xC3, CHR 0xA9, CHR 0xC3, CHR 0xA9] = 2 \<and> utf8_strlen ''abc'' = 3"
  by (simp add: make_fixed_width_def slice_to_def rjust_def utf8_strlen_def eval_nat_numeral)

subsection \<open>The label sparsifier\<close>

lemma tiles_groupby: "tiles i (runs_from i (groupby kvs)) (i + length kvs)"
proof (induction kvs arbitrary: i rule: groupby.induct)
  case 1
  then show ?case by simp
next
  case (2 key x rest)
  let ?t = "takeWhile (\<lambda>p. fst p = key) rest"
  let ?d = "dropWhile (\<lambda>p. fst p = key) rest"
  have "length ?t + length ?d = length rest"
    by (metis length_append takeWhile_dropWhile_id)
  then have "i + Suc (length ?t) + length ?d = i + length ((key, x) # rest)" by simp
  with "2.IH" [of "i + Suc (length ?t)"]
  have "tiles (i + Suc (length ?t)) (runs_from (i + Suc (length ?t)) (groupby ?d))
      (i + length ((key, x) # rest))"
    by (simp only:)
  then show ?case by simp
qed

lemma tiles_le: "tiles i rs n \<Longrightarrow> i \<le> n"
proof (induction i rs n rule: tiles.induct)
  case (1 i n)
  then show ?case by simp
next
  case (2 i s len rs n)
  then show ?case by simp
qed

lemma tiles_bounds: "tiles i rs n \<Longrightarrow> (s, len) \<in> set rs \<Longrightarrow> i \<le> s \<and> 0 < len \<and> s + len \<le> n"
proof (induction i rs n rule: tiles.induct)
  case (1 i n)
  then show ?case by simp
next
  case (2 i s' len' rs n)
  from "2.prems"(1) have t: "tiles (i + len') rs n" and s': "s' = i" and l: "0 < len'" by simp_all
  show ?case
  proof (cases "(s, len) = (s', len')")
    case True
    from t have "i + len' \<le> n" by (rule tiles_le)
    with True s' l show ?thesis by simp
  next
    case False
    with "2.prems"(2) have "(s, len) \<in> set rs" by auto
    with "2.IH" [OF t] show ?thesis by simp
  qed
qed

lemma tiles_distinct: "tiles i rs n \<Longrightarrow> distinct (map fst rs)"
proof (induction i rs n rule: tiles.induct)
  case (1 i n)
  then show ?case by simp
next
  case (2 i s len rs n)
  from "2.prems" have t: "tiles (i + len) rs n" and s: "s = i" and l: "0 < len" by simp_all
  have "s \<notin> fst ` set rs"
  proof
    assume "s \<in> fst ` set rs"
    then obtain b where "(s, b) \<in> set rs" by auto
    with tiles_bounds [OF t] have "i + len \<le> s" by blast
    with s l show False by simp
  qed
  with "2.IH" [OF t] show ?case by simp
qed

lemma tiles_sum: "tiles i rs n \<Longrightarrow> i + sum_list (map snd rs) = n"
  by (induction i rs n rule: tiles.induct) auto

lemma tiles_next:
  "tiles i rs n \<Longrightarrow> (s, len) \<in> set rs \<Longrightarrow> s + len = n \<or> s + len \<in> fst ` set rs"
proof (induction i rs n rule: tiles.induct)
  case (1 i n)
  then show ?case by simp
next
  case (2 i s' len' rs n)
  from "2.prems"(1) have t: "tiles (i + len') rs n" and s': "s' = i" by simp_all
  show ?case
  proof (cases "(s, len) = (s', len')")
    case True
    show ?thesis
    proof (cases rs)
      case Nil
      with t True s' show ?thesis by simp
    next
      case (Cons p ps)
      obtain a b where p: "p = (a, b)" by (cases p)
      with t Cons have "a = i + len'" by simp
      with True s' Cons p show ?thesis by simp
    qed
  next
    case False
    with "2.prems"(2) have "(s, len) \<in> set rs" by auto
    with "2.IH" [OF t] show ?thesis by auto
  qed
qed

lemma tiles_cover:
  "tiles i rs n \<Longrightarrow> i \<le> r \<Longrightarrow> r < n \<Longrightarrow> \<exists>s len. (s, len) \<in> set rs \<and> s \<le> r \<and> r < s + len"
proof (induction i rs n rule: tiles.induct)
  case (1 i n)
  then show ?case by simp
next
  case (2 i s len rs n)
  from "2.prems"(1) have t: "tiles (i + len) rs n" and s: "s = i" by simp_all
  show ?case
  proof (cases "r < i + len")
    case True
    with s "2.prems"(2) show ?thesis by auto
  next
    case False
    then have "i + len \<le> r" by simp
    from "2.IH" [OF t this "2.prems"(3)] show ?thesis by auto
  qed
qed

lemma tiles_disjoint:
  "tiles i rs n \<Longrightarrow> (s, len) \<in> set rs \<Longrightarrow> (s', len') \<in> set rs \<Longrightarrow>
     s \<le> r \<Longrightarrow> r < s + len \<Longrightarrow> s' \<le> r \<Longrightarrow> r < s' + len' \<Longrightarrow> s = s' \<and> len = len'"
proof (induction i rs n rule: tiles.induct)
  case (1 i n)
  then show ?case by simp
next
  case (2 i a b rs n)
  from "2.prems"(1) have t: "tiles (i + b) rs n" and a: "a = i" by simp_all
  note later = tiles_bounds [OF t]
  show ?case
  proof (cases "(s, len) = (a, b)")
    case True
    show ?thesis
    proof (cases "(s', len') = (a, b)")
      case True
      with \<open>(s, len) = (a, b)\<close> show ?thesis by simp
    next
      case False
      with "2.prems"(3) have "(s', len') \<in> set rs" by auto
      with later have "i + b \<le> s'" by blast
      with True a "2.prems"(5,6) show ?thesis by simp
    qed
  next
    case False
    with "2.prems"(2) have in1: "(s, len) \<in> set rs" by auto
    show ?thesis
    proof (cases "(s', len') = (a, b)")
      case True
      from in1 later have "i + b \<le> s" by blast
      with True a "2.prems"(4,7) show ?thesis by simp
    next
      case False
      with "2.prems"(3) have "(s', len') \<in> set rs" by auto
      with "2.IH" [OF t in1 this] "2.prems"(4-7) show ?thesis by simp
    qed
  qed
qed

lemma level_loop_runs:
  "tiles i (runs_from i groups) n \<Longrightarrow>
     level_loop i recs groups = recs ++ map_of (runs_from i groups)"
proof (induction i recs groups rule: level_loop.induct)
  case (1 i recs)
  then show ?case by simp
next
  case (2 i recs key "values" groups)
  let ?len = "length values"
  from "2.prems" have t: "tiles (i + ?len) (runs_from (i + ?len) groups) n" and l: "0 < ?len"
    by simp_all
  have "i \<notin> fst ` set (runs_from (i + ?len) groups)"
  proof
    assume "i \<in> fst ` set (runs_from (i + ?len) groups)"
    then obtain b where "(i, b) \<in> set (runs_from (i + ?len) groups)" by auto
    with tiles_bounds [OF t] have "i + ?len \<le> i" by blast
    with l show False by simp
  qed
  then have none: "map_of (runs_from (i + ?len) groups) i = None"
    by (simp add: map_of_eq_None_iff)
  have "level_loop i recs ((key, values) # groups) =
      recs(i \<mapsto> ?len) ++ map_of (runs_from (i + ?len) groups)"
    by (simp only: level_loop.simps "2.IH" [OF t])
  also have "\<dots> = recs ++ map_of (runs_from i ((key, values) # groups))"
    using none by (auto simp: map_add_def fun_eq_iff split: option.splits)
  finally show ?case .
qed

lemma length_group_keys: "length (group_keys sentinal count lev) = length lev"
  by (induction lev arbitrary: count) (simp_all add: grouper_def Let_def)

lemma level_runs_tiles: "tiles 0 (level_runs sentinal lev) (length lev)"
  using tiles_groupby [of 0 "group_keys sentinal 0 lev"]
  by (simp add: level_runs_def length_group_keys)

lemma level_lengths_map_of: "level_lengths sentinal lev = map_of (level_runs sentinal lev)"
  using level_loop_runs [of 0 "groupby (group_keys sentinal 0 lev)" "length lev" Map.empty]
    level_runs_tiles [of sentinal lev]
  by (simp add: level_lengths_def level_runs_def)

lemma level_lengths_Some:
  "level_lengths sentinal lev s = Some len \<longleftrightarrow> (s, len) \<in> set (level_runs sentinal lev)"
  using tiles_distinct [OF level_runs_tiles [of sentinal lev]]
  by (simp add: level_lengths_map_of)

lemma level_lengths_dom: "dom (level_lengths sentinal lev) = fst ` set (level_runs sentinal lev)"
  by (simp add: level_lengths_map_of dom_map_of_conv_image_fst)

lemma level_lengths_sum:
  "(\<Sum>s \<in> dom (level_lengths sentinal lev). the (level_lengths sentinal lev s)) = length lev"
proof -
  let ?rs = "level_runs sentinal lev"
  let ?recs = "level_lengths sentinal lev"
  have d: "distinct (map fst ?rs)" by (rule tiles_distinct [OF level_runs_tiles])
  have "(\<Sum>s \<in> dom ?recs. the (?recs s)) = (\<Sum>s \<in> set (map fst ?rs). the (?recs s))"
    by (simp add: level_lengths_dom)
  also have "\<dots> = sum_list (map (\<lambda>s. the (?recs s)) (map fst ?rs))"
    using d by (simp only: sum_list_distinct_conv_sum_set)
  also have "\<dots> = sum_list (map snd ?rs)"
  proof -
    have "the (?recs (fst p)) = snd p" if "p \<in> set ?rs" for p
    proof -
      from that have "(fst p, snd p) \<in> set ?rs" by simp
      then have "?recs (fst p) = Some (snd p)" by (simp only: level_lengths_Some)
      then show ?thesis by simp
    qed
    then show ?thesis by (simp add: comp_def cong: map_cong)
  qed
  also have "\<dots> = length lev" using tiles_sum [OF level_runs_tiles [of sentinal lev]] by simp
  finally show ?thesis .
qed

lemma level_lengths_unique:
  assumes "r < length lev"
  shows "\<exists>!s. s \<in> dom (level_lengths sentinal lev) \<and> s \<le> r \<and>
           r < s + the (level_lengths sentinal lev s)"
proof -
  let ?rs = "level_runs sentinal lev"
  let ?recs = "level_lengths sentinal lev"
  note t = level_runs_tiles [of sentinal lev]
  from tiles_cover [OF t _ assms] obtain s len
    where m: "(s, len) \<in> set ?rs" and r: "s \<le> r" "r < s + len"
    by auto
  from m have sl: "?recs s = Some len" by (simp only: level_lengths_Some)
  show ?thesis
  proof (rule ex1I [of _ s])
    from sl r show "s \<in> dom ?recs \<and> s \<le> r \<and> r < s + the (?recs s)" by auto
  next
    fix s' assume a: "s' \<in> dom ?recs \<and> s' \<le> r \<and> r < s' + the (?recs s')"
    then obtain len' where sl': "?recs s' = Some len'" by auto
    then have m': "(s', len') \<in> set ?rs" by (simp only: level_lengths_Some)
    from a sl' have "s' \<le> r" "r < s' + len'" by simp_all
    with tiles_disjoint [OF t m' m _ _ r] show "s' = s" by blast
  qed
qed

lemma level_lengths_run:
  assumes "level_lengths sentinal lev s = Some len"
  shows "0 < len" and "s + len \<le> length lev"
    and "s + len = length lev \<or> s + len \<in> dom (level_lengths sentinal lev)"
    and "\<forall>t \<in> dom (level_lengths sentinal lev). \<not> (s < t \<and> t < s + len)"
proof -
  let ?rs = "level_runs sentinal lev"
  let ?recs = "level_lengths sentinal lev"
  note t = level_runs_tiles [of sentinal lev]
  from assms have m: "(s, len) \<in> set ?rs" by (simp only: level_lengths_Some)
  from tiles_bounds [OF t m] show "0 < len" and "s + len \<le> length lev" by simp_all
  from tiles_next [OF t m] show "s + len = length lev \<or> s + len \<in> dom ?recs"
    by (simp only: level_lengths_dom)
  show "\<forall>t \<in> dom ?recs. \<not> (s < t \<and> t < s + len)"
  proof (intro ballI notI)
    fix u assume u: "u \<in> dom ?recs" and b: "s < u \<and> u < s + len"
    from u obtain len' where "?recs u = Some len'" by auto
    then have m': "(u, len') \<in> set ?rs" by (simp only: level_lengths_Some)
    with tiles_bounds [OF t] have "0 < len'" by blast
    with tiles_disjoint [OF t m m', of u] b show False by simp
  qed
qed

lemma level_lengths_zero:
  assumes "0 < length lev"
  shows "0 \<in> dom (level_lengths sentinal lev)"
proof -
  from tiles_cover [OF level_runs_tiles [of sentinal lev] _ assms, of ] obtain s len
    where "(s, len) \<in> set (level_runs sentinal lev)" "s \<le> 0"
    by auto
  then have "level_lengths sentinal lev 0 = Some len" by (simp add: level_lengths_Some)
  then show ?thesis by auto
qed

text \<open>
  C5. For every level of the input, the dictionary that \<open>_get_level_lengths\<close> returns for
  it covers the rows of that level exactly once: a non-empty level has a run starting at
  0; every run has a positive length, ends within the level, and ends either at the end
  of the level or where another run starts, with no run starting inside it; the lengths
  add up to the number of rows; and every row index lies in exactly one run.
\<close>

theorem get_level_lengths_cover:
  "length (get_level_lengths levels sentinal) = length levels \<and>
   (\<forall>l < length levels.
      let recs = get_level_lengths levels sentinal ! l; n = length (levels ! l)
      in finite (dom recs) \<and>
         (0 < n \<longrightarrow> 0 \<in> dom recs) \<and>
         (\<forall>s len. recs s = Some len \<longrightarrow>
            0 < len \<and> s + len \<le> n \<and> (s + len = n \<or> s + len \<in> dom recs) \<and>
            (\<forall>t \<in> dom recs. \<not> (s < t \<and> t < s + len))) \<and>
         (\<Sum>s \<in> dom recs. the (recs s)) = n \<and>
         (\<forall>r < n. \<exists>!s. s \<in> dom recs \<and> s \<le> r \<and> r < s + the (recs s)))"
proof -
  have "finite (dom (level_lengths sentinal lev))" for lev
    by (simp add: level_lengths_dom)
  then show ?thesis
    using level_lengths_zero [of _ sentinal] level_lengths_run [of sentinal]
      level_lengths_sum [of sentinal] level_lengths_unique [of _ _ sentinal]
    by (simp add: get_level_lengths_def Let_def)
qed

theorem get_level_lengths_cover_witness:
  "(0::nat) < length [[''a'', '''', ''b'', ''a'', '''']] \<and>
   (get_level_lengths [[''a'', '''', ''b'', ''a'', '''']] '''' ! 0) 0 = Some 2 \<and>
   (get_level_lengths [[''a'', '''', ''b'', ''a'', '''']] '''' ! 0) 2 = Some 1 \<and>
   (get_level_lengths [[''a'', '''', ''b'', ''a'', '''']] '''' ! 0) 3 = Some 2 \<and>
   (\<Sum>s \<in> dom (get_level_lengths [[''a'', '''', ''b'', ''a'', '''']] '''' ! 0).
      the ((get_level_lengths [[''a'', '''', ''b'', ''a'', '''']] '''' ! 0) s)) = 5"
  using get_level_lengths_cover [of "[[''a'', '''', ''b'', ''a'', '''']]" "''''"]
  by (simp add: Let_def) (simp add: get_level_lengths_def level_lengths_def grouper_def)

lemma takeWhile_group_keys:
  "takeWhile (\<lambda>p. fst p = count) (group_keys sentinal count xs) =
     group_keys sentinal count (takeWhile (\<lambda>y. y = sentinal) xs)"
  by (induction xs) (simp_all add: grouper_def Let_def)

lemma dropWhile_group_keys:
  "dropWhile (\<lambda>p. fst p = count) (group_keys sentinal count xs) =
     group_keys sentinal count (dropWhile (\<lambda>y. y = sentinal) xs)"
  by (induction xs) (simp_all add: grouper_def Let_def)

lemma runs_from_group_keys_Cons:
  "runs_from i (groupby (group_keys sentinal count (x # xs))) =
     (i, Suc (length (takeWhile (\<lambda>y. y = sentinal) xs))) #
       runs_from (i + Suc (length (takeWhile (\<lambda>y. y = sentinal) xs)))
         (groupby (group_keys sentinal (fst (grouper sentinal count x))
            (dropWhile (\<lambda>y. y = sentinal) xs)))"
proof -
  obtain key where g: "grouper sentinal count x = (key, key)"
    by (simp add: grouper_def Let_def)
  then show ?thesis
    by (simp add: takeWhile_group_keys dropWhile_group_keys length_group_keys)
qed

lemma takeWhile_block:
  "post = [] \<or> hd post \<noteq> sentinal \<Longrightarrow>
     takeWhile (\<lambda>y. y = sentinal) (replicate m sentinal @ post) = replicate m sentinal"
  by (cases post) (simp_all add: takeWhile_append2 takeWhile_tail)

lemma block_run_from:
  assumes "a \<noteq> sentinal" "post = [] \<or> hd post \<noteq> sentinal"
  shows "(i + length pre, Suc m) \<in>
     set (runs_from i (groupby (group_keys sentinal count (pre @ a # replicate m sentinal @ post))))"
proof (induction pre arbitrary: i count rule: length_induct)
  case (1 pre)
  show ?case
  proof (cases pre)
    case Nil
    with takeWhile_block [OF assms(2), of m] show ?thesis
      by (simp only: append_Nil runs_from_group_keys_Cons) simp
  next
    case (Cons x pre')
    let ?t = "takeWhile (\<lambda>y. y = sentinal) pre'"
    let ?d = "dropWhile (\<lambda>y. y = sentinal) pre'"
    let ?rest = "a # replicate m sentinal @ post"
    have tw: "takeWhile (\<lambda>y. y = sentinal) (pre' @ ?rest) = ?t"
      using assms(1) by (simp add: takeWhile_tail)
    have dw: "dropWhile (\<lambda>y. y = sentinal) (pre' @ ?rest) = ?d @ ?rest"
      using assms(1) by (simp add: dropWhile_append3)
    have len: "length ?t + length ?d = length pre'"
      by (metis length_append takeWhile_dropWhile_id)
    have "length ?d < length pre" using Cons len by simp
    with "1.IH" have "(i + Suc (length ?t) + length ?d, Suc m) \<in>
        set (runs_from (i + Suc (length ?t))
          (groupby (group_keys sentinal (fst (grouper sentinal count x)) (?d @ ?rest))))"
      by blast
    moreover have "i + Suc (length ?t) + length ?d = i + length pre" using Cons len by simp
    ultimately show ?thesis
      using Cons by (simp only: append_Cons runs_from_group_keys_Cons tw dw) simp
  qed
qed

lemma block_run:
  assumes "a \<noteq> sentinal" "post = [] \<or> hd post \<noteq> sentinal"
  shows "level_lengths sentinal (pre @ a # replicate m sentinal @ post) (length pre) = Some (Suc m)"
  using block_run_from [OF assms, of 0 pre m 0]
  by (simp add: level_lengths_Some level_runs_def)

lemma run_of_row:
  assumes "level_lengths sentinal lev s = Some len" "s \<le> r" "r < s + len"
    and "level_lengths sentinal lev s' = Some len'" "s' \<le> r" "r < s' + len'"
  shows "s = s' \<and> len = len'"
proof -
  from assms(1,4) have "(s, len) \<in> set (level_runs sentinal lev)"
    and "(s', len') \<in> set (level_runs sentinal lev)"
    by (simp_all only: level_lengths_Some)
  with tiles_disjoint [OF level_runs_tiles [of sentinal lev]] assms(2,3,5,6) show ?thesis
    by blast
qed

text \<open>
  C6. Take a level in which a block of a label \<open>a\<close> (the label, then \<open>m\<close> sentinel-marked
  repeats) is followed by a row with another label \<open>b\<close> and any further rows, and then by
  a second block of \<open>a\<close> with \<open>k\<close> repeats. The dictionary returned for that level has one
  run for each block, at the block's own start and of the block's own length; the first
  run ends before the second starts, and no run reaches from a row of the first block
  into the second.
\<close>

theorem get_level_lengths_separate_blocks:
  assumes "l < length levels"
    and "levels ! l =
      pre @ (a # replicate m sentinal) @ (b # mid) @ (a # replicate k sentinal) @ post"
    and "a \<noteq> sentinal" "b \<noteq> sentinal" "b \<noteq> a"
    and "post = [] \<or> hd post \<noteq> sentinal"
  shows "let recs = get_level_lengths levels sentinal ! l;
             s1 = length pre;
             s2 = length pre + Suc m + Suc (length mid)
         in recs s1 = Some (Suc m) \<and> recs s2 = Some (Suc k) \<and> s1 + Suc m < s2 \<and>
            (\<forall>s len r. recs s = Some len \<and> s \<le> r \<and> r < s + len \<and> s1 \<le> r \<and> r < s1 + Suc m
               \<longrightarrow> s = s1 \<and> len = Suc m \<and> s + len < s2)"
proof -
  let ?lev = "pre @ (a # replicate m sentinal) @ (b # mid) @ (a # replicate k sentinal) @ post"
  let ?recs = "level_lengths sentinal ?lev"
  from assms(1,2) have recs: "get_level_lengths levels sentinal ! l = ?recs"
    by (simp add: get_level_lengths_def)
  have "(b # mid) @ (a # replicate k sentinal) @ post = []
      \<or> hd ((b # mid) @ (a # replicate k sentinal) @ post) \<noteq> sentinal"
    using assms(4) by simp
  from block_run [OF assms(3) this, of pre m]
  have r1: "?recs (length pre) = Some (Suc m)" by simp
  from block_run [OF assms(3,6), of "pre @ (a # replicate m sentinal) @ (b # mid)" k]
  have r2: "?recs (length pre + Suc m + Suc (length mid)) = Some (Suc k)"
    by (simp add: add.assoc)
  have "s = length pre \<and> len = Suc m \<and> s + len < length pre + Suc m + Suc (length mid)"
    if "?recs s = Some len" "s \<le> r" "r < s + len" "length pre \<le> r" "r < length pre + Suc m"
    for s len r
    using run_of_row [OF that(1-3) r1 that(4,5)] by simp
  with r1 r2 recs show ?thesis unfolding Let_def by auto
qed

theorem get_level_lengths_separate_blocks_witness:
  "(0::nat) < length [[''a'', '''', ''b'', ''a'', '''', '''']] \<and>
   [[''a'', '''', ''b'', ''a'', '''', '''']] ! 0 =
     [] @ (''a'' # replicate 1 '''') @ (''b'' # []) @ (''a'' # replicate 2 '''') @ [] \<and>
   ''a'' \<noteq> '''' \<and> ''b'' \<noteq> '''' \<and> ''b'' \<noteq> ''a'' \<and>
   (get_level_lengths [[''a'', '''', ''b'', ''a'', '''', '''']] '''' ! 0) 0 = Some 2 \<and>
   (get_level_lengths [[''a'', '''', ''b'', ''a'', '''', '''']] '''' ! 0) 3 = Some 3"
proof -
  have h: "[[''a'', '''', ''b'', ''a'', '''', '''']] ! 0 =
     [] @ (''a'' # replicate 1 '''') @ (''b'' # []) @ (''a'' # replicate 2 '''') @ []"
    by (simp add: eval_nat_numeral)
  from get_level_lengths_separate_blocks [of 0 "[[''a'', '''', ''b'', ''a'', '''', '''']]"
      "[]" "''a''" 1 "''''" "''b''" "[]" 2 "[]", OF _ h]
  show ?thesis by (simp add: Let_def eval_nat_numeral)
qed

subsection \<open>Console wrapping\<close>

lemma binify_five_narrow: "lw \<le> 82 \<Longrightarrow> binify [40, 40, 40, 40, 40] lw = [1, 2, 3, 4, 5]"
  by (simp add: binify_def Let_def)

lemma binify_five_wide:
  "84 \<le> lw \<Longrightarrow> lw \<le> 123 \<Longrightarrow> binify [40, 40, 40, 40, 40] lw = [2, 4, 5]"
  by (simp add: binify_def Let_def)

lemma idx_width_nonneg: "idx \<noteq> [] \<Longrightarrow> 0 \<le> Max (set (map (\<lambda>x. int (length x)) idx))"
proof -
  assume "idx \<noteq> []"
  then have "int (length (hd idx)) \<le> Max (set (map (\<lambda>x. int (length x)) idx))" by simp
  then show ?thesis by simp
qed

text \<open>
  C7 (amended). Five value columns of width 40 under a line width of 80 go into five bins
  of one column each: a column takes 41 with its separator, and two of them do not fit.
  Every block starts with the row-label column; the first four end with the continuation
  column and the last with a column of spaces. (Bins of two, two and one columns are what
  \<open>_binify\<close> returns for a width from 84 to 123.)
\<close>

theorem join_multiline_five_columns:
  assumes "idx \<noteq> []" and "map col_width cols = [40, 40, 40, 40, 40]"
  shows "binify (map col_width cols) 80 = [1, 2, 3, 4, 5] \<and>
         (\<forall>lw. 84 \<le> lw \<and> lw \<le> 123 \<longrightarrow> binify (map col_width cols) lw = [2, 4, 5]) \<and>
         join_multiline_rows 80 True frame_len (idx # cols) =
           Inr [[idx, cols ! 0, [CHR '' '', CHR 0x5C] # replicate (frame_len - 1) ''  ''],
                [idx, cols ! 1, [CHR '' '', CHR 0x5C] # replicate (frame_len - 1) ''  ''],
                [idx, cols ! 2, [CHR '' '', CHR 0x5C] # replicate (frame_len - 1) ''  ''],
                [idx, cols ! 3, [CHR '' '', CHR 0x5C] # replicate (frame_len - 1) ''  ''],
                [idx, cols ! 4, replicate frame_len '' '']]"
proof -
  have "length (map col_width cols) = 5" by (simp only: assms(2)) simp
  then have "length cols = 5" by simp
  then obtain c0 c1 c2 c3 c4 where cols: "cols = [c0, c1, c2, c3, c4]"
    by (auto simp: length_Suc_conv eval_nat_numeral)
  let ?lw = "80 - (Max (set (map (\<lambda>x. int (length x)) idx)) + 1)"
  from idx_width_nonneg [OF assms(1)] have "?lw \<le> 82" by simp
  then have b: "binify (map col_width cols) ?lw = [1, 2, 3, 4, 5]"
    by (simp only: assms(2) binify_five_narrow)
  have "join_multiline_rows 80 True frame_len (idx # cols) =
      Inr (bin_rows idx cols frame_len 5 0 0 [1, 2, 3, 4, 5])"
    using assms(1) b by (simp add: join_multiline_rows_def Let_def)
  then have rows: "join_multiline_rows 80 True frame_len (idx # cols) =
           Inr [[idx, cols ! 0, [CHR '' '', CHR 0x5C] # replicate (frame_len - 1) ''  ''],
                [idx, cols ! 1, [CHR '' '', CHR 0x5C] # replicate (frame_len - 1) ''  ''],
                [idx, cols ! 2, [CHR '' '', CHR 0x5C] # replicate (frame_len - 1) ''  ''],
                [idx, cols ! 3, [CHR '' '', CHR 0x5C] # replicate (frame_len - 1) ''  ''],
                [idx, cols ! 4, replicate frame_len '' '']]"
    by (simp add: cols slice_def Let_def)
  from assms(2) binify_five_narrow [of 80] binify_five_wide rows show ?thesis by simp
qed

theorem join_multiline_five_columns_witness:
  "[''0''] \<noteq> [] \<and>
   map col_width (replicate 5 [replicate 40 (CHR ''x'')]) = [40, 40, 40, 40, 40] \<and>
   binify (map col_width (replicate 5 [replicate 40 (CHR ''x'')])) 80 = [1, 2, 3, 4, 5] \<and>
   join_multiline_rows 80 True 1 ([''0''] # replicate 5 [replicate 40 (CHR ''x'')]) =
     Inr [[[''0''], [replicate 40 (CHR ''x'')], [[CHR '' '', CHR 0x5C]]],
          [[''0''], [replicate 40 (CHR ''x'')], [[CHR '' '', CHR 0x5C]]],
          [[''0''], [replicate 40 (CHR ''x'')], [[CHR '' '', CHR 0x5C]]],
          [[''0''], [replicate 40 (CHR ''x'')], [[CHR '' '', CHR 0x5C]]],
          [[''0''], [replicate 40 (CHR ''x'')], ['' '']]]"
proof -
  have h: "map col_width (replicate 5 [replicate 40 (CHR ''x'')]) = [40, 40, 40, 40, 40]"
    by (simp add: col_width_def eval_nat_numeral)
  from join_multiline_five_columns [of "[''0'']" "replicate 5 [replicate 40 (CHR ''x'')]" 1, OF _ h]
  show ?thesis using h by (simp add: eval_nat_numeral)
qed

text \<open>At line width 80 the five columns of width 40 make five bins, not three.\<close>

theorem binify_five_columns_counterexample:
  "binify [40, 40, 40, 40, 40] 80 = [1, 2, 3, 4, 5] \<and>
   length (binify [40, 40, 40, 40, 40] 80) = 5"
  by (simp add: binify_def Let_def)

subsection \<open>Header writers\<close>

lemma save_header_alias_mismatch:
  assumes "csv_index self" "csv_header self = HeaderAliases al"
    and "length al \<noteq> length (csv_cols self)"
  shows "save_header self = Inl (AliasCountError (length (csv_cols self)) (length al))"
  using assms by (simp add: save_header_def Let_def)

lemma save_header_alias_match:
  assumes "csv_index self" "csv_header self = HeaderAliases al"
    and "length al = length (csv_cols self)" "\<not> csv_has_mi_columns self"
  shows "save_header self =
     Inr [(if csv_index_label self \<noteq> LabelFalse
           then label_list (resolve_index_label (csv_obj_index self) (csv_index_label self))
           else []) @ al]"
  using assms by (simp add: save_header_def Let_def)

lemma save_header_no_index:
  assumes "\<not> csv_index self" "csv_header self = HeaderAliases al" "\<not> csv_has_mi_columns self"
  shows "save_header self = Inr [csv_cols self]"
  using assms by (simp add: save_header_def Let_def)

lemma format_header_regular_alias_mismatch:
  assumes "xl_header self = HeaderAliases al" "length al \<noteq> length (xl_columns self)"
    and "xl_df_index self \<noteq> DfMulti []"
  shows "format_header_regular self = Inl (AliasCountError (length (xl_columns self)) (length al))"
  using assms
  by (auto simp: format_header_regular_def Let_def split: df_index.splits list.splits)

lemma format_header_regular_alias_match:
  assumes "xl_header self = HeaderAliases al" "length al = length (xl_columns self)"
    and "xl_df_index self \<noteq> DfMulti []"
  shows "\<exists>cells. format_header_regular self = Inr cells \<and> map (\<lambda>(r, c, v). v) cells = al"
  using assms
  by (auto simp: format_header_regular_def Let_def comp_def case_prod_unfold
      map_snd_enumerate split: df_index.splits list.splits)

text \<open>
  C8. With \<open>index=False\<close> the delimited writer never looks at the aliases: one alias for two
  columns raises nothing and the column labels are written, and two aliases for two
  columns are not written either. The branch for \<open>index=True\<close> and the Excel header do
  check the count and write the aliases.
\<close>

theorem save_header_no_index_ignores_aliases:
  "save_header \<lparr>csv_header = HeaderAliases [''x''], csv_index = False,
      csv_index_label = LabelNone, csv_cols = [''a'', ''b''], csv_has_mi_columns = False,
      csv_obj_index = FlatIndex None, csv_mi_columns = []\<rparr> = Inr [[''a'', ''b'']] \<and>
   save_header \<lparr>csv_header = HeaderAliases [''x'', ''y''], csv_index = False,
      csv_index_label = LabelNone, csv_cols = [''a'', ''b''], csv_has_mi_columns = False,
      csv_obj_index = FlatIndex None, csv_mi_columns = []\<rparr> = Inr [[''a'', ''b'']] \<and>
   save_header \<lparr>csv_header = HeaderAliases [''x''], csv_index = True,
      csv_index_label = LabelNone, csv_cols = [''a'', ''b''], csv_has_mi_columns = False,
      csv_obj_index = FlatIndex None, csv_mi_columns = []\<rparr> = Inl (AliasCountError 2 1) \<and>
   format_header_regular \<lparr>xl_header = HeaderAliases [''x''], xl_index = False,
      xl_df_index = DfFlat, xl_columns = [''a'', ''b''], xl_rowcounter = 0\<rparr> =
     Inl (AliasCountError 2 1)"
  by (simp add: save_header_def format_header_regular_def)

subsection \<open>Value formatters\<close>

lemma format_strings_nth:
  assumes "i < length vals" "\<not> (is_float (vals ! i) \<and> \<not> checknull (vals ! i))"
  shows "format_strings na_rep formatter float_format vals ! i =
     CHR '' '' # generic_format na_rep formatter (vals ! i)"
  using assms by (auto simp: format_strings_def Let_def)

text \<open>
  C9. In the object formatter, with any \<open>na_rep\<close> that is set (the default \<open>'NaN'\<close> among
  them), \<open>None\<close> is rendered as the token \<open>None\<close> and \<open>NaN\<close> as \<open>na_rep\<close>; in the list of
  strings each comes after the one leading space of the entries that are not floats. The
  two differ unless \<open>na_rep\<close> is itself \<open>'None'\<close>.
\<close>

theorem generic_format_null_flavors:
  "generic_format (Some na_rep) formatter PyNone = ''None'' \<and>
   generic_format (Some na_rep) formatter NaN = na_rep \<and>
   length (format_strings (Some na_rep) formatter float_format vals) = length vals \<and>
   (\<forall>i < length vals.
      (vals ! i = PyNone \<longrightarrow>
         format_strings (Some na_rep) formatter float_format vals ! i = '' None'') \<and>
      (vals ! i = NaN \<longrightarrow>
         format_strings (Some na_rep) formatter float_format vals ! i = CHR '' '' # na_rep)) \<and>
   (na_rep \<noteq> ''None'' \<longrightarrow>
      generic_format (Some na_rep) formatter PyNone \<noteq> generic_format (Some na_rep) formatter NaN)"
proof -
  have a: "generic_format (Some na_rep) formatter PyNone = ''None''"
    and b: "generic_format (Some na_rep) formatter NaN = na_rep"
    by (simp_all add: generic_format_def)
  have c: "length (format_strings (Some na_rep) formatter float_format vals) = length vals"
    by (simp add: format_strings_def Let_def)
  have d: "format_strings (Some na_rep) formatter float_format vals ! i = '' None''"
    if "i < length vals" "vals ! i = PyNone" for i
    using that a by (simp add: format_strings_nth)
  have e: "format_strings (Some na_rep) formatter float_format vals ! i = CHR '' '' # na_rep"
    if "i < length vals" "vals ! i = NaN" for i
    using that b by (simp add: format_strings_nth)
  from a b c d e show ?thesis by auto
qed

theorem generic_format_null_flavors_witness:
  "(1::nat) < length [Float (1::nat), PyNone, NaN, Obj ''x''] \<and>
   [Float (1::nat), PyNone, NaN, Obj ''x''] ! 1 = PyNone \<and>
   [Float (1::nat), PyNone, NaN, Obj ''x''] ! 2 = NaN \<and>
   ''NaN'' \<noteq> ''None'' \<and>
   format_strings (Some ''NaN'') (\<lambda>v. ''x'') (\<lambda>v. '' 1'')
     [Float (1::nat), PyNone, NaN, Obj ''x''] = ['' 1'', '' None'', '' NaN'', '' x''] \<and>
   generic_format (Some ''NaN'') (\<lambda>v. ''x'') (PyNone :: (nat, string) pyvalue) \<noteq>
     generic_format (Some ''NaN'') (\<lambda>v. ''x'') (NaN :: (nat, string) pyvalue)"
  using generic_format_null_flavors [of "''NaN''" "\<lambda>v. ''x''" "\<lambda>v. '' 1''"
      "[Float (1::nat), PyNone, NaN, Obj ''x'']"]
  by (simp add: format_strings_def generic_format_def)

lemma float_val_well_formed:
  assumes "well_formed fmt"
  shows "float_val percent na_rep threshold fmt x =
     Inr (if x = FNaN then na_rep
          else if (\<exists>t r. threshold = Some t \<and> x = Finite r \<and> \<bar>r\<bar> \<le> t)
          then (if endswith_e fmt then ''0'' else percent fmt (Finite 0))
          else percent fmt x)"
proof (cases threshold)
  case None
  with assms show ?thesis by (simp add: float_val_def float_notnull_def)
next
  case (Some t)
  with assms show ?thesis
    by (cases x) (auto simp: float_val_def float_notnull_def)
qed

lemma collect_Inr: "collect (map (\<lambda>x. Inr (f x)) xs) = Inr (map f xs)"
  by (induction xs) simp_all

lemma format_with_well_formed:
  assumes "well_formed fmt"
  shows "format_with percent na_rep threshold vals fmt =
     Inr (trim_zeros
       (map (\<lambda>x. if x = FNaN then na_rep
                  else if (\<exists>t r. threshold = Some t \<and> x = Finite r \<and> \<bar>r\<bar> \<le> t)
                  then (if endswith_e fmt then ''0'' else percent fmt (Finite 0))
                  else percent fmt x) vals) na_rep)"
proof -
  have "float_val percent na_rep threshold fmt =
      (\<lambda>x. Inr (if x = FNaN then na_rep
                  else if (\<exists>t r. threshold = Some t \<and> x = Finite r \<and> \<bar>r\<bar> \<le> t)
                  then (if endswith_e fmt then ''0'' else percent fmt (Finite 0))
                  else percent fmt x))"
    by (rule ext) (rule float_val_well_formed [OF assms])
  then show ?thesis by (simp only: format_with_def collect_Inr sum.case)
qed

lemma collect_ill_formed:
  assumes "\<not> well_formed fmt" "\<not> endswith_e fmt" "\<exists>x \<in> set vals. x \<noteq> FNaN"
  shows "collect (map (float_val percent na_rep threshold fmt) vals) = Inl FormatError"
  using assms(3)
proof (induction vals)
  case Nil
  then show ?case by simp
next
  case (Cons v vs)
  show ?case
  proof (cases "v = FNaN")
    case True
    with Cons have "collect (map (float_val percent na_rep threshold fmt) vs) = Inl FormatError"
      by simp
    moreover from True have "float_val percent na_rep threshold fmt v = Inr na_rep"
      by (simp add: float_val_def float_notnull_def)
    ultimately show ?thesis by simp
  next
    case False
    with assms(1,2) have "float_val percent na_rep threshold fmt v = Inl FormatError"
      by (simp add: float_val_def float_notnull_def)
    then show ?thesis by simp
  qed
qed

lemma float_gt_fabs_iff:
  "float_gt (fabs x) c \<longleftrightarrow> x = PosInf \<or> x = NegInf \<or> (\<exists>r. x = Finite r \<and> c < \<bar>r\<bar>)"
  by (cases x) simp_all

lemma float_lt_fabs_iff: "float_lt (fabs x) c \<longleftrightarrow> (\<exists>r. x = Finite r \<and> \<bar>r\<bar> < c)"
  by (cases x) simp_all

lemma has_large_values_iff:
  "list_ex (\<lambda>x. float_gt (fabs x) 100000000) vals \<longleftrightarrow>
     PosInf \<in> set vals \<or> NegInf \<in> set vals \<or> (\<exists>r. Finite r \<in> set vals \<and> 100000000 < \<bar>r\<bar>)"
proof
  assume "list_ex (\<lambda>x. float_gt (fabs x) 100000000) vals"
  then obtain x where x: "x \<in> set vals" and "float_gt (fabs x) 100000000"
    unfolding list_ex_iff by blast
  then have "x = PosInf \<or> x = NegInf \<or> (\<exists>r. x = Finite r \<and> 100000000 < \<bar>r\<bar>)"
    by (simp only: float_gt_fabs_iff)
  with x show "PosInf \<in> set vals \<or> NegInf \<in> set vals \<or>
      (\<exists>r. Finite r \<in> set vals \<and> 100000000 < \<bar>r\<bar>)"
    by blast
next
  assume "PosInf \<in> set vals \<or> NegInf \<in> set vals \<or>
      (\<exists>r. Finite r \<in> set vals \<and> 100000000 < \<bar>r\<bar>)"
  then obtain x where x: "x \<in> set vals"
    and "x = PosInf \<or> x = NegInf \<or> (\<exists>r. x = Finite r \<and> 100000000 < \<bar>r\<bar>)"
    by blast
  then have "float_gt (fabs x) 100000000" by (simp only: float_gt_fabs_iff)
  with x show "list_ex (\<lambda>x. float_gt (fabs x) 100000000) vals"
    unfolding list_ex_iff by blast
qed

lemma has_small_values_iff:
  assumes "1 \<le> digits"
  shows "list_ex (\<lambda>x. float_lt (fabs x) (py_pow10 (- digits)) \<and> float_gt (fabs x) 0) vals \<longleftrightarrow>
     (\<exists>r. Finite r \<in> set vals \<and> 0 < \<bar>r\<bar> \<and> \<bar>r\<bar> < 1 / 10 ^ nat digits)"
proof -
  from assms have p: "py_pow10 (- digits) = 1 / 10 ^ nat digits" by (simp add: py_pow10_def)
  have small: "float_lt (fabs x) (1 / 10 ^ nat digits) \<and> float_gt (fabs x) 0 \<longleftrightarrow>
      (\<exists>r. x = Finite r \<and> 0 < \<bar>r\<bar> \<and> \<bar>r\<bar> < 1 / 10 ^ nat digits)" for x
    by (cases x) auto
  show ?thesis
  proof
    assume "list_ex (\<lambda>x. float_lt (fabs x) (py_pow10 (- digits)) \<and> float_gt (fabs x) 0) vals"
    then obtain x where x: "x \<in> set vals"
      and "float_lt (fabs x) (1 / 10 ^ nat digits) \<and> float_gt (fabs x) 0"
      unfolding list_ex_iff p by blast
    then have "\<exists>r. x = Finite r \<and> 0 < \<bar>r\<bar> \<and> \<bar>r\<bar> < 1 / 10 ^ nat digits" by (simp only: small)
    with x show "\<exists>r. Finite r \<in> set vals \<and> 0 < \<bar>r\<bar> \<and> \<bar>r\<bar> < 1 / 10 ^ nat digits" by blast
  next
    assume "\<exists>r. Finite r \<in> set vals \<and> 0 < \<bar>r\<bar> \<and> \<bar>r\<bar> < 1 / 10 ^ nat digits"
    then obtain r where r: "Finite r \<in> set vals" and "0 < \<bar>r\<bar> \<and> \<bar>r\<bar> < 1 / 10 ^ nat digits"
      by blast
    then have "float_lt (fabs (Finite r)) (1 / 10 ^ nat digits) \<and> float_gt (fabs (Finite r)) 0"
      by simp
    with r show "list_ex (\<lambda>x. float_lt (fabs x) (py_pow10 (- digits)) \<and> float_gt (fabs x) 0) vals"
      unfolding list_ex_iff p by blast
  qed
qed

lemma escalation_chain:
  "(case (if a then Inr s else if b then Inr s else Inr f) of
      Inl e \<Rightarrow> Inl e
    | Inr v \<Rightarrow> Inr (g v)) = Inr (g (if a \<or> b then s else f))"
  by simp

text \<open>
  C2 (amended). With no formatter override and a precision of at least 1, \<open>get_result\<close>
  first formats the column in fixed-point notation with \<open>digits - 1\<close> fractional digits and
  trims it. If the longest of these strings is longer than \<open>digits + 5\<close> and some absolute
  value exceeds \<open>10^8\<close>, or some non-zero absolute value is below \<open>10^(-digits)\<close>, the result
  is the fixed-width layout of the whole column formatted again under the \<open>e\<close> format with
  \<open>digits - 1\<close> fractional digits and trimmed: there a \<open>NaN\<close> is \<open>na_rep\<close>, a value whose
  absolute value is not above a configured chop threshold is the bare \<open>0\<close>, and every other
  value, which is every value but \<open>NaN\<close> when no threshold is configured, is what the \<open>e\<close>
  format prints for it. Otherwise the result is the fixed-width layout of the
  fixed-point strings. With a precision below 1 the format string is not well formed and
  a column with a value other than \<open>NaN\<close> raises.
\<close>

theorem float_get_result_escalation:
  "(1 \<le> digits \<longrightarrow>
      float_get_result percent strlen conf_max threshold None na_rep digits justify vals =
        (let str = (\<lambda>fmt x.
               if x = FNaN then na_rep
               else if (\<exists>t r. threshold = Some t \<and> x = Finite r \<and> \<bar>r\<bar> \<le> t)
               then (if endswith_e fmt then ''0'' else percent fmt (Finite 0))
               else percent fmt x);
             fixed = trim_zeros (map (str (FixedFmt (digits - 1))) vals) na_rep;
             too_long = ((if length fixed > 0 then Max (set (map (\<lambda>x. int (length x)) fixed)) else 0)
                           > digits + 5);
             has_large_values =
               (PosInf \<in> set vals \<or> NegInf \<in> set vals \<or>
                (\<exists>r. Finite r \<in> set vals \<and> 100000000 < \<bar>r\<bar>));
             has_small_values =
               (\<exists>r. Finite r \<in> set vals \<and> 0 < \<bar>r\<bar> \<and> \<bar>r\<bar> < 1 / 10 ^ nat digits)
         in Inr (make_fixed_width strlen conf_max
              (if (too_long \<and> has_large_values) \<or> has_small_values
               then trim_zeros (map (str (SciFmt (digits - 1))) vals) na_rep
               else fixed)
              justify None))) \<and>
   (digits < 1 \<and> (\<exists>x \<in> set vals. x \<noteq> FNaN) \<longrightarrow>
      float_get_result percent strlen conf_max threshold None na_rep digits justify vals =
        Inl FormatError)"
proof (intro conjI impI)
  assume d: "1 \<le> digits"
  then have wf: "well_formed (FixedFmt (digits - 1))" and we: "well_formed (SciFmt (digits - 1))"
    by simp_all
  show "float_get_result percent strlen conf_max threshold None na_rep digits justify vals =
        (let str = (\<lambda>fmt x.
               if x = FNaN then na_rep
               else if (\<exists>t r. threshold = Some t \<and> x = Finite r \<and> \<bar>r\<bar> \<le> t)
               then (if endswith_e fmt then ''0'' else percent fmt (Finite 0))
               else percent fmt x);
             fixed = trim_zeros (map (str (FixedFmt (digits - 1))) vals) na_rep;
             too_long = ((if length fixed > 0 then Max (set (map (\<lambda>x. int (length x)) fixed)) else 0)
                           > digits + 5);
             has_large_values =
               (PosInf \<in> set vals \<or> NegInf \<in> set vals \<or>
                (\<exists>r. Finite r \<in> set vals \<and> 100000000 < \<bar>r\<bar>));
             has_small_values =
               (\<exists>r. Finite r \<in> set vals \<and> 0 < \<bar>r\<bar> \<and> \<bar>r\<bar> < 1 / 10 ^ nat digits)
         in Inr (make_fixed_width strlen conf_max
              (if (too_long \<and> has_large_values) \<or> has_small_values
               then trim_zeros (map (str (SciFmt (digits - 1))) vals) na_rep
               else fixed)
              justify None))"
    unfolding float_get_result_def Let_def format_with_well_formed [OF wf]
      format_with_well_formed [OF we] has_large_values_iff has_small_values_iff [OF d]
      option.case sum.case
    by (rule escalation_chain [where g = "\<lambda>v. make_fixed_width strlen conf_max v justify None"])
next
  assume a: "digits < 1 \<and> (\<exists>x \<in> set vals. x \<noteq> FNaN)"
  then have "\<not> well_formed (FixedFmt (digits - 1))" by simp
  from collect_ill_formed [OF this _ conjunct2 [OF a]]
  have "format_with percent na_rep threshold vals (FixedFmt (digits - 1)) = Inl FormatError"
    by (simp add: format_with_def)
  then show "float_get_result percent strlen conf_max threshold None na_rep digits justify vals =
        Inl FormatError"
    by (simp add: float_get_result_def)
qed

theorem float_get_result_escalation_witness:
  "(1::int) \<le> 7 \<and>
   float_get_result scenario_percent utf8_strlen (Some 50) None None ''NaN'' 7 ''right''
     [Finite 10000000000, Finite (1 / 10000)] = Inr ['' 1.000000e+10'', '' 1.000000e-04''] \<and>
   trim_zeros (map (scenario_percent (FixedFmt (7 - 1))) [Finite 10000000000, Finite (1 / 10000)])
     ''NaN'' = ['' 10000000000.0000'', '' 0.0001'']"
proof -
  let ?vals = "[Finite 10000000000, Finite (1 / 10000)]"
  have d: "(1::int) \<le> 7" by simp
  have m: "map (\<lambda>x. if x = FNaN then ''NaN''
               else if (\<exists>t r. (None :: real option) = Some t \<and> x = Finite r \<and> \<bar>r\<bar> \<le> t)
               then (if endswith_e fmt then ''0'' else scenario_percent fmt (Finite 0))
               else scenario_percent fmt x) ?vals = map (scenario_percent fmt) ?vals" for fmt
    by simp
  have fx: "trim_zeros (map (scenario_percent (FixedFmt (7 - 1))) ?vals) ''NaN'' =
      ['' 10000000000.0000'', '' 0.0001'']"
    by (simp add: scenario_percent_def trim_zeros_def trim_loop.simps trim_cond_def
        trim_step_def endswith_char_def)
  have sc: "trim_zeros (map (scenario_percent (SciFmt (7 - 1))) ?vals) ''NaN'' =
      ['' 1.000000e+10'', '' 1.000000e-04'']"
    by (simp add: scenario_percent_def trim_zeros_def trim_loop.simps trim_cond_def
        trim_step_def endswith_char_def)
  have tl: "(7::int) + 5 <
      (if 0 < length ['' 10000000000.0000'', '' 0.0001'']
       then Max (set (map (\<lambda>x. int (length x)) ['' 10000000000.0000'', '' 0.0001''])) else 0)"
    by simp
  have hl: "PosInf \<in> set ?vals \<or> NegInf \<in> set ?vals \<or>
      (\<exists>r. Finite r \<in> set ?vals \<and> 100000000 < \<bar>r\<bar>)"
    by (intro disjI2 exI [of _ 10000000000]) simp
  have fw: "make_fixed_width utf8_strlen (Some 50) ['' 1.000000e+10'', '' 1.000000e-04'']
      ''right'' None = ['' 1.000000e+10'', '' 1.000000e-04'']"
    by (simp add: make_fixed_width_def rjust_def utf8_strlen_def)
  note e = float_get_result_escalation [of 7 scenario_percent utf8_strlen "Some 50" None
      "''NaN''" "''right''" ?vals, THEN conjunct1, THEN mp, OF d]
  from e [unfolded Let_def m fx] tl hl
  have "float_get_result scenario_percent utf8_strlen (Some 50) None None ''NaN'' 7 ''right''
      ?vals = Inr (make_fixed_width utf8_strlen (Some 50)
        (trim_zeros (map (scenario_percent (SciFmt (7 - 1))) ?vals) ''NaN'') ''right'' None)"
    by (simp only: simp_thms if_True)
  with d fx sc fw show ?thesis by (simp only: simp_thms)
qed

text \<open>
  With a chop threshold of 0.01 and the column \<open>[1e-09, 0.001]\<close>, the second pass is
  entered (a non-zero absolute value below \<open>10^-7\<close>) and both values, which are not
  above the threshold, come out of the \<open>e\<close> format as the bare \<open>0\<close>, which the trim pass
  then empties: no value is in scientific notation.
\<close>

theorem float_get_result_chop_counterexample:
  "float_val scenario_percent ''NaN'' (Some (1 / 100)) (SciFmt 6) (Finite (1 / 1000000000)) =
     Inr ''0'' \<and>
   float_val scenario_percent ''NaN'' (Some (1 / 100)) (SciFmt 6) (Finite (1 / 1000)) = Inr ''0'' \<and>
   float_get_result scenario_percent utf8_strlen (Some 50) (Some (1 / 100)) None ''NaN'' 7 ''right''
     [Finite (1 / 1000000000), Finite (1 / 1000)] = Inr ['''', '''']"
proof -
  have v: "float_val scenario_percent ''NaN'' (Some (1 / 100)) fmt (Finite (1 / 1000000000)) =
      Inr (if endswith_e fmt then ''0'' else '' 0.000000'')"
    "float_val scenario_percent ''NaN'' (Some (1 / 100)) fmt (Finite (1 / 1000)) =
      Inr (if endswith_e fmt then ''0'' else '' 0.000000'')" if "well_formed fmt" for fmt
    using that by (simp_all add: float_val_def float_notnull_def scenario_percent_def)
  have fx: "format_with scenario_percent ''NaN'' (Some (1 / 100))
      [Finite (1 / 1000000000), Finite (1 / 1000)] (FixedFmt 6) = Inr ['' 0'', '' 0'']"
    by (simp add: format_with_def v trim_zeros_def trim_loop.simps trim_cond_def
        trim_step_def endswith_char_def)
  have sc: "format_with scenario_percent ''NaN'' (Some (1 / 100))
      [Finite (1 / 1000000000), Finite (1 / 1000)] (SciFmt 6) = Inr ['''', '''']"
    by (simp add: format_with_def v trim_zeros_def trim_loop.simps trim_cond_def
        trim_step_def endswith_char_def)
  have sm: "float_lt (fabs (Finite (1 / 1000000000))) (py_pow10 (- 7)) \<and>
      float_gt (fabs (Finite (1 / 1000000000))) 0"
    by (simp add: py_pow10_def)
  have fw: "make_fixed_width utf8_strlen (Some 50) ['''', ''''] ''right'' None = ['''', '''']"
    by (simp add: make_fixed_width_def rjust_def utf8_strlen_def)
  have "float_get_result scenario_percent utf8_strlen (Some 50) (Some (1 / 100)) None ''NaN'' 7
      ''right'' [Finite (1 / 1000000000), Finite (1 / 1000)] = Inr ['''', '''']"
    using fx sc sm fw by (simp add: float_get_result_def Let_def)
  with v [of "SciFmt 6"] show ?thesis by simp
qed

subsection \<open>The delimited writer\<close>













end
